theory Spec2Isabelle
  imports Main "HOL-Library.Word"
begin

section \<open>Python values, exceptions and byte strings\<close>

text \<open>
  The package \<open>direct_redis\<close> wraps a Redis client: values are converted by
  \<open>convert_set_type\<close> before a write and recovered by \<open>convert_get_type\<close> after a
  read (\<open>direct_redis/functions.py\<close>). A Python \<open>bytes\<close> object is a list of 8-bit
  words, a Python \<open>str\<close> the list of its Unicode code points.
\<close>

type_synonym byte = "8 word"
type_synonym bytes = "byte list"
type_synonym ustr = "nat list"

datatype pyobj =
    PyNone
  | PyBool bool
  | PyInt int
  | PyStr ustr
  | PyBytes bytes
  | PyList "pyobj list"
  | PyTuple "pyobj list"
  | PyDict "(pyobj \<times> pyobj) list"

text \<open>
  The exceptions that the code and the library calls it makes can raise.
  \<open>PicklingError\<close> and \<open>UnpicklingError\<close> are the subclasses of \<open>pickle.PickleError\<close>;
  \<open>EOFError\<close>, \<open>ImportError\<close>, \<open>AttributeError\<close>, \<open>IndexError\<close>, \<open>ValueError\<close> and the
  others are not. \<open>Unmodelled\<close> marks input outside the fragment of the pickle
  format that \<open>pickle_loads\<close> and \<open>pickle_dumps\<close> below cover.
\<close>

datatype pyexc =
    PickleError
  | PicklingError
  | UnpicklingError
  | EOFError
  | ImportError
  | AttributeError
  | IndexError
  | KeyError
  | TypeError
  | ValueError
  | UnicodeDecodeError
  | UnicodeEncodeError
  | OverflowError
  | StructError
  | DataError
  | Unmodelled

text \<open>What \<open>except pickle.PickleError\<close> catches.\<close>

fun is_PickleError :: "pyexc \<Rightarrow> bool" where
  "is_PickleError PickleError = True"
| "is_PickleError PicklingError = True"
| "is_PickleError UnpicklingError = True"
| "is_PickleError _ = False"

text \<open>\<open>isinstance(value, str)\<close>.\<close>

fun is_str :: "pyobj \<Rightarrow> bool" where
  "is_str (PyStr s) = True"
| "is_str _ = False"

text \<open>Sequencing of calls that may raise: the first exception ends the evaluation.\<close>

definition bindE :: "'e + 'a \<Rightarrow> ('a \<Rightarrow> 'e + 'b) \<Rightarrow> 'e + 'b" where
  "bindE m f = (case m of Inl e \<Rightarrow> Inl e | Inr x \<Rightarrow> f x)"

text \<open>A list comprehension \<open>[f(x) for x in xs]\<close> whose body may raise.\<close>

fun mapE :: "('a \<Rightarrow> 'e + 'b) \<Rightarrow> 'a list \<Rightarrow> 'e + 'b list" where
  "mapE f [] = Inr []"
| "mapE f (x # xs) = bindE (f x) (\<lambda>y. bindE (mapE f xs) (\<lambda>ys. Inr (y # ys)))"

section \<open>UTF-8, as \<open>str.encode\<close> and \<open>bytes.decode\<close> implement it\<close>

text \<open>
  \<open>bytes.decode("utf-8")\<close> is the strict decoder: it raises \<open>UnicodeDecodeError\<close> on a
  stray continuation byte, a truncated sequence, an overlong form, a surrogate
  (U+D800..U+DFFF) and a code point above U+10FFFF.
\<close>

text \<open>The byte with a given value below 256.\<close>

definition byte_of :: "nat \<Rightarrow> byte" where
  "byte_of n = of_nat n"

definition cont_byte :: "byte \<Rightarrow> bool" where
  "cont_byte b = (128 \<le> unat b \<and> unat b < 192)"

definition cont_bits :: "byte \<Rightarrow> nat" where
  "cont_bits b = unat b - 128"

definition consE :: "'a \<Rightarrow> 'e + 'a list \<Rightarrow> 'e + 'a list" where
  "consE c r = (case r of Inl e \<Rightarrow> Inl e | Inr s \<Rightarrow> Inr (c # s))"

fun utf8_decode :: "bytes \<Rightarrow> pyexc + ustr" where
  "utf8_decode [] = Inr []"
| "utf8_decode (b0 # bs) =
    (if unat b0 < 128 then consE (unat b0) (utf8_decode bs)
     else if unat b0 < 192 then Inl UnicodeDecodeError
     else if unat b0 < 224 then
       (case bs of
          b1 # r \<Rightarrow>
            (let cp = (unat b0 - 192) * 64 + cont_bits b1
             in if cont_byte b1 \<and> 128 \<le> cp
                then consE cp (utf8_decode r) else Inl UnicodeDecodeError)
        | _ \<Rightarrow> Inl UnicodeDecodeError)
     else if unat b0 < 240 then
       (case bs of
          b1 # b2 # r \<Rightarrow>
            (let cp = (unat b0 - 224) * 4096 + cont_bits b1 * 64 + cont_bits b2
             in if cont_byte b1 \<and> cont_byte b2 \<and> 2048 \<le> cp
                   \<and> \<not> (55296 \<le> cp \<and> cp < 57344)
                then consE cp (utf8_decode r) else Inl UnicodeDecodeError)
        | _ \<Rightarrow> Inl UnicodeDecodeError)
     else if unat b0 < 248 then
       (case bs of
          b1 # b2 # b3 # r \<Rightarrow>
            (let cp = (unat b0 - 240) * 262144 + cont_bits b1 * 4096
                      + cont_bits b2 * 64 + cont_bits b3
             in if cont_byte b1 \<and> cont_byte b2 \<and> cont_byte b3
                   \<and> 65536 \<le> cp \<and> cp < 1114112
                then consE cp (utf8_decode r) else Inl UnicodeDecodeError)
        | _ \<Rightarrow> Inl UnicodeDecodeError)
     else Inl UnicodeDecodeError)"

text \<open>
  \<open>str.encode("utf-8")\<close>: one to four bytes per code point; a surrogate cannot be
  encoded (\<open>UnicodeEncodeError\<close>). A Python \<open>str\<close> holds no code point above U+10FFFF;
  the model refuses such a number as well.
\<close>

definition utf8_encode_cp :: "nat \<Rightarrow> bytes option" where
  "utf8_encode_cp c =
    (if c < 128 then Some [byte_of c]
     else if c < 2048 then Some [byte_of (192 + c div 64), byte_of (128 + c mod 64)]
     else if 55296 \<le> c \<and> c < 57344 then None
     else if c < 65536 then
       Some [byte_of (224 + c div 4096), byte_of (128 + c div 64 mod 64),
             byte_of (128 + c mod 64)]
     else if c < 1114112 then
       Some [byte_of (240 + c div 262144), byte_of (128 + c div 4096 mod 64),
             byte_of (128 + c div 64 mod 64), byte_of (128 + c mod 64)]
     else None)"

fun utf8_encode :: "ustr \<Rightarrow> pyexc + bytes" where
  "utf8_encode [] = Inr []"
| "utf8_encode (c # cs) =
    (case utf8_encode_cp c of
       None \<Rightarrow> Inl UnicodeEncodeError
     | Some bs \<Rightarrow> (case utf8_encode cs of Inl e \<Rightarrow> Inl e | Inr r \<Rightarrow> Inr (bs @ r)))"

section \<open>The codec: \<open>direct_redis/functions.py\<close>\<close>

text \<open>
  \<open>convert_set_type\<close> returns a \<open>str\<close> as it is and \<open>pickle.dumps(value)\<close> for every
  other value; \<open>dumps\<close> is the serializer it calls, which may raise.
\<close>

definition convert_set_type :: "(pyobj \<Rightarrow> pyexc + bytes) \<Rightarrow> pyobj \<Rightarrow> pyexc + pyobj" where
  "convert_set_type dumps value =
    (if is_str value then Inr value
     else (case dumps value of Inl e \<Rightarrow> Inl e | Inr b \<Rightarrow> Inr (PyBytes b)))"

text \<open>
  \<open>{k: convert_set_type(v) for k, v in dic.items()}\<close>: a dictionary is the list of its
  items in insertion order.
\<close>

text \<open>\<open>dic.items()\<close>: only a dictionary has the method.\<close>

fun items :: "pyobj \<Rightarrow> pyexc + (pyobj \<times> pyobj) list" where
  "items (PyDict d) = Inr d"
| "items _ = Inl AttributeError"

definition convert_set_mapping_dic ::
  "(pyobj \<Rightarrow> pyexc + bytes) \<Rightarrow> pyobj \<Rightarrow> pyexc + (pyobj \<times> pyobj) list" where
  "convert_set_mapping_dic dumps dic =
    bindE (items dic)
      (mapE (\<lambda>(k, v). bindE (convert_set_type dumps v) (\<lambda>v'. Inr (k, v'))))"

text \<open>
  \<open>convert_get_type\<close>, branch by branch. \<open>loads\<close> is the deserializer it calls
  (\<open>pickle.loads\<close>); an exception of \<open>loads\<close> that is not a \<open>PickleError\<close> is not caught
  by either handler and leaves the function. The decoder raises nothing but
  \<open>UnicodeDecodeError\<close>, which the second handler catches.
\<close>

definition convert_get_type ::
  "(bytes \<Rightarrow> pyexc + pyobj) \<Rightarrow> bytes option \<Rightarrow> bool \<Rightarrow> pyexc + pyobj" where
  "convert_get_type loads encoded pickle_first =
    (case encoded of
       None \<Rightarrow> Inr PyNone
     | Some b \<Rightarrow>
        (let text_or_fallback =
           (case utf8_decode b of
              Inr s \<Rightarrow> Inr (PyStr s)
            | Inl _ \<Rightarrow>
               (if \<not> pickle_first then
                  (case loads b of
                     Inr v \<Rightarrow> Inr v
                   | Inl e \<Rightarrow> if is_PickleError e then Inr (PyBytes b) else Inl e)
                else Inr (PyBytes b)))
         in if pickle_first then
              (case loads b of
                 Inr v \<Rightarrow> Inr v
               | Inl e \<Rightarrow> if is_PickleError e then text_or_fallback else Inl e)
            else text_or_fallback))"

text \<open>
  The wording of the specification, for comparison: every failure of the generic
  deserialization falls through to the next step, and the raw bytes are the last
  resort.
\<close>

definition Decode_spec ::
  "(bytes \<Rightarrow> pyexc + pyobj) \<Rightarrow> bytes option \<Rightarrow> bool \<Rightarrow> pyexc + pyobj" where
  "Decode_spec loads encoded pickle_first =
    (case encoded of
       None \<Rightarrow> Inr PyNone
     | Some b \<Rightarrow>
        (case (if pickle_first then loads b else Inl UnpicklingError) of
           Inr v \<Rightarrow> Inr v
         | Inl _ \<Rightarrow>
            (case utf8_decode b of
               Inr s \<Rightarrow> Inr (PyStr s)
             | Inl _ \<Rightarrow>
                (case (if \<not> pickle_first then loads b else Inl UnpicklingError) of
                   Inr v \<Rightarrow> Inr v
                 | Inl _ \<Rightarrow> Inr (PyBytes b)))))"

section \<open>The client's encoding of a value on the wire\<close>

text \<open>
  \<open>convert_set_type\<close> hands a \<open>str\<close> or a \<open>bytes\<close> object to the Redis client, whose
  encoder (redis-py 4.6.0, \<open>Encoder.encode\<close>, default \<open>encoding="utf-8"\<close>, strict)
  sends \<open>bytes\<close> as they are and a \<open>str\<close> as its UTF-8 encoding. It rejects every
  other kind of value with \<open>DataError\<close>, numbers apart, which it sends as their
  \<open>repr\<close>; \<open>convert_set_type\<close> never returns a number, and that branch is left out.
\<close>

fun client_encode :: "pyobj \<Rightarrow> pyexc + bytes" where
  "client_encode (PyBytes b) = Inr b"
| "client_encode (PyStr s) = utf8_encode s"
| "client_encode (PyInt i) = Inl Unmodelled"
| "client_encode _ = Inl DataError"

text \<open>What a read of the key returns after \<open>set(name, value)\<close>: the bytes that were sent.\<close>

definition Encode :: "(pyobj \<Rightarrow> pyexc + bytes) \<Rightarrow> pyobj \<Rightarrow> pyexc + bytes" where
  "Encode dumps v = bindE (convert_set_type dumps v) client_encode"

section \<open>A fragment of the pickle format\<close>

text \<open>
  \<open>pickle.loads\<close> and \<open>pickle.dumps\<close> are parameters of the codec above. For concrete
  inputs, this is CPython's unpickler and its pickler at protocol 4 on the opcodes
  \<open>PROTO\<close>, \<open>FRAME\<close>, \<open>NONE\<close>, \<open>NEWTRUE\<close>, \<open>NEWFALSE\<close>, \<open>BININT\<close>, \<open>BININT1\<close>,
  \<open>BININT2\<close>, \<open>BINGET\<close> and \<open>STOP\<close>. Reading past the end of the input for an opcode
  raises \<open>EOFError\<close>, for an argument \<open>UnpicklingError\<close>; a byte that is no opcode
  raises \<open>UnpicklingError\<close>. Any other opcode ends the model with \<open>Unmodelled\<close>; none
  of them is modelled, so the memo is empty when \<open>BINGET\<close> reads it.
\<close>

fun le_nat :: "bytes \<Rightarrow> nat" where
  "le_nat [] = 0"
| "le_nat (b # bs) = unat b + 256 * le_nat bs"

fun le_bytes :: "nat \<Rightarrow> nat \<Rightarrow> bytes" where
  "le_bytes 0 n = []"
| "le_bytes (Suc k) n = byte_of (n mod 256) # le_bytes k (n div 256)"

definition signed32 :: "nat \<Rightarrow> int" where
  "signed32 n = (if n < 2147483648 then int n else int n - 4294967296)"

definition other_opcodes :: "byte list" where
  "other_opcodes =
    [40, 41, 48, 49, 50, 66, 67, 70, 71, 73, 76, 80, 81, 82, 83, 84, 85, 86, 88, 93,
     97, 98, 99, 100, 101, 103, 105, 106, 108, 111, 112, 113, 114, 115, 116, 117, 125,
     129, 130, 131, 132, 133, 134, 135, 138, 139, 140, 141, 142, 143, 144, 145, 146,
     147, 148, 150, 151, 152]"

function unpickle :: "pyobj list \<Rightarrow> bytes \<Rightarrow> pyexc + pyobj" where
  "unpickle stack [] = Inl EOFError"
| "unpickle stack (opc # rest) =
    (if opc = 46 then
       (case stack of [] \<Rightarrow> Inl UnpicklingError | v # _ \<Rightarrow> Inr v)
     else if opc = 78 then unpickle (PyNone # stack) rest
     else if opc = 136 then unpickle (PyBool True # stack) rest
     else if opc = 137 then unpickle (PyBool False # stack) rest
     else if opc = 75 then
       (if length rest < 1 then Inl UnpicklingError
        else unpickle (PyInt (int (le_nat (take 1 rest))) # stack) (drop 1 rest))
     else if opc = 77 then
       (if length rest < 2 then Inl UnpicklingError
        else unpickle (PyInt (int (le_nat (take 2 rest))) # stack) (drop 2 rest))
     else if opc = 74 then
       (if length rest < 4 then Inl UnpicklingError
        else unpickle (PyInt (signed32 (le_nat (take 4 rest))) # stack) (drop 4 rest))
     else if opc = 128 then
       (case rest of
          [] \<Rightarrow> Inl UnpicklingError
        | p # r \<Rightarrow> if unat p \<le> 5 then unpickle stack r else Inl ValueError)
     else if opc = 149 then
       (if length rest < 8 then Inl UnpicklingError
        else if 9223372036854775808 \<le> le_nat (take 8 rest) then Inl OverflowError
        else if length (drop 8 rest) < le_nat (take 8 rest) then Inl UnpicklingError
        else unpickle stack (drop 8 rest))
     else if opc = 104 then Inl UnpicklingError
     else if opc \<in> set other_opcodes then Inl Unmodelled
     else Inl UnpicklingError)"
  by pat_completeness auto
termination
  by (relation "measure (\<lambda>(stack, b). length b)") auto

definition pickle_loads :: "bytes \<Rightarrow> pyexc + pyobj" where
  "pickle_loads b = unpickle [] b"

text \<open>
  The pickler at protocol 4: \<open>PROTO 4\<close>, then the opcodes of the value and \<open>STOP\<close>,
  inside a \<open>FRAME\<close> when they are four bytes or more. An integer outside the signed
  32-bit range (\<open>LONG1\<close>, \<open>LONG4\<close>) and the other types are outside the fragment.
\<close>

fun save :: "pyobj \<Rightarrow> pyexc + bytes" where
  "save PyNone = Inr [78]"
| "save (PyBool b) = Inr [if b then 136 else 137]"
| "save (PyInt i) =
    (if 0 \<le> i \<and> i < 256 then Inr (75 # le_bytes 1 (nat i))
     else if 0 \<le> i \<and> i < 65536 then Inr (77 # le_bytes 2 (nat i))
     else if - 2147483648 \<le> i \<and> i < 2147483648 then
       Inr (74 # le_bytes 4 (nat (i mod 4294967296)))
     else Inl Unmodelled)"
| "save _ = Inl Unmodelled"

definition frame :: "bytes \<Rightarrow> bytes" where
  "frame body = (if 4 \<le> length body then 149 # le_bytes 8 (length body) @ body else body)"

definition pickle_dumps :: "pyobj \<Rightarrow> pyexc + bytes" where
  "pickle_dumps v = bindE (save v) (\<lambda>ops. Inr ([128, 4] @ frame (ops @ [46])))"

text \<open>The values the fragment covers.\<close>

fun in_fragment :: "pyobj \<Rightarrow> bool" where
  "in_fragment PyNone = True"
| "in_fragment (PyBool b) = True"
| "in_fragment (PyInt i) = (- 2147483648 \<le> i \<and> i < 2147483648)"
| "in_fragment _ = False"

section \<open>The numeric-array codec: \<open>serialize_np\<close> and \<open>unserialize_np\<close>\<close>

text \<open>
  A NumPy array, as far as the two functions look at it: its element type (the type
  number \<open>dtype.num\<close>, the size of an element and whether the byte order is the native
  one), its shape, and the bytes \<open>tobytes()\<close> returns (the elements in C order).
\<close>

record np_dtype =
  num :: nat
  itemsize :: nat
  native :: bool

record ndarray =
  dtype :: np_dtype
  shape :: "nat list"
  tobytes :: bytes

text \<open>Every array holds \<open>itemsize\<close> bytes for each of its elements.\<close>

definition wf_array :: "ndarray \<Rightarrow> bool" where
  "wf_array a = (length (tobytes a) = itemsize (dtype a) * prod_list (shape a))"

text \<open>
  \<open>struct.pack(">IIII", ...)\<close> and \<open>struct.unpack(">IIII", ...)\<close>: four unsigned 32-bit
  fields, big-endian. Packing a number that does not fit and unpacking a buffer that
  is not 16 bytes long raise \<open>struct.error\<close>.
\<close>

definition be32 :: "nat \<Rightarrow> bytes" where
  "be32 n = [byte_of (n div 16777216 mod 256), byte_of (n div 65536 mod 256),
             byte_of (n div 256 mod 256), byte_of (n mod 256)]"

definition be_nat :: "bytes \<Rightarrow> nat" where
  "be_nat bs = foldl (\<lambda>acc b. acc * 256 + unat b) 0 bs"

definition struct_pack_IIII :: "nat \<Rightarrow> nat \<Rightarrow> nat \<Rightarrow> nat \<Rightarrow> pyexc + bytes" where
  "struct_pack_IIII a b c d =
    (if a < 4294967296 \<and> b < 4294967296 \<and> c < 4294967296 \<and> d < 4294967296
     then Inr (be32 a @ be32 b @ be32 c @ be32 d) else Inl StructError)"

definition struct_unpack_IIII :: "bytes \<Rightarrow> pyexc + nat \<times> nat \<times> nat \<times> nat" where
  "struct_unpack_IIII buf =
    (if length buf = 16
     then Inr (be_nat (take 4 buf), be_nat (take 4 (drop 4 buf)),
               be_nat (take 4 (drop 8 buf)), be_nat (take 4 (drop 12 buf)))
     else Inl StructError)"

definition serialize_np :: "ndarray \<Rightarrow> pyexc + bytes" where
  "serialize_np np_array =
    bindE (case shape np_array of
             [n] \<Rightarrow> Inr (n, 0, 0)
           | [n, m] \<Rightarrow> Inr (n, m, 0)
           | [n, m, p] \<Rightarrow> Inr (n, m, p)
           | _ \<Rightarrow> Inl ValueError)
      (\<lambda>(d1, d2, d3).
         bindE (struct_pack_IIII (num (dtype np_array)) d1 d2 d3)
           (\<lambda>packed_data. Inr (packed_data @ tobytes np_array)))"

text \<open>
  \<open>np.frombuffer(buf, offset=..., dtype=t)\<close>: a one-dimensional array over the rest of
  the buffer; \<open>ValueError\<close> for an element size of zero, for the object type (number
  17), for an offset beyond the buffer and for a rest that is no multiple of the
  element size.
\<close>

definition frombuffer :: "bytes \<Rightarrow> nat \<Rightarrow> np_dtype \<Rightarrow> pyexc + ndarray" where
  "frombuffer buf offset t =
    (if itemsize t = 0 \<or> num t = 17 then Inl ValueError
     else if length buf < offset then Inl ValueError
     else if (length buf - offset) mod itemsize t \<noteq> 0 then Inl ValueError
     else Inr \<lparr>dtype = t, shape = [(length buf - offset) div itemsize t],
               tobytes = drop offset buf\<rparr>)"

text \<open>
  \<open>a.reshape(...)\<close>: the number of elements must stay the same. NumPy also refuses,
  with \<open>ValueError\<close>, a shape whose dimensions other than 0, multiplied with the size
  of an element, exceed \<open>2^63 - 1\<close> bytes. No array has such a shape, so the shape of
  an array that \<open>serialize_np\<close> was given never meets that test; it is not part of
  this definition, which on a header made up with such dimensions and a dimension
  of 0 returns an array where NumPy raises.
\<close>

definition reshape :: "ndarray \<Rightarrow> nat list \<Rightarrow> pyexc + ndarray" where
  "reshape a newshape =
    (if prod_list newshape = prod_list (shape a) then Inr (a\<lparr>shape := newshape\<rparr>)
     else Inl ValueError)"

text \<open>
  \<open>unserialize_np\<close>; \<open>typeDict\<close> is the table \<open>np.typeDict\<close> from type numbers to element
  types, a \<open>KeyError\<close> for a number it does not hold.
\<close>

definition unserialize_np :: "(nat \<Rightarrow> np_dtype option) \<Rightarrow> bytes \<Rightarrow> pyexc + ndarray" where
  "unserialize_np typeDict encoded =
    bindE (struct_unpack_IIII (take 16 encoded))
      (\<lambda>(dt, d1, d2, d3).
         case typeDict dt of
           None \<Rightarrow> Inl KeyError
         | Some t \<Rightarrow>
             bindE (frombuffer encoded 16 t)
               (\<lambda>np_array.
                  if d3 \<noteq> 0 then reshape np_array [d1, d2, d3]
                  else if d2 \<noteq> 0 then reshape np_array [d1, d2]
                  else Inr np_array))"

text \<open>
  The table of NumPy on 64-bit Linux: the type numbers 0 to 23 (\<open>bool\<close>, the integers
  from \<open>int8\<close> to \<open>ulonglong\<close>, \<open>float32\<close>, \<open>float64\<close>, \<open>longdouble\<close>, the three complex
  types, \<open>object\<close>, \<open>bytes\<close>, \<open>str\<close>, \<open>void\<close>, \<open>datetime64\<close>, \<open>timedelta64\<close>, \<open>float16\<close>)
  with the sizes of their elements, each in native byte order.
\<close>

definition np_itemsizes :: "nat list" where
  "np_itemsizes = [1, 1, 1, 2, 2, 4, 4, 8, 8, 8, 8, 4, 8, 16, 8, 16, 32, 8, 0, 0, 0, 8, 8, 2]"

definition np_typeDict :: "nat \<Rightarrow> np_dtype option" where
  "np_typeDict n =
    (if n < length np_itemsizes
     then Some \<lparr>num = n, itemsize = np_itemsizes ! n, native = True\<rparr> else None)"

section \<open>The client operations: \<open>direct_redis/direct_redis.py\<close>\<close>

text \<open>
  Each method of \<open>DirectRedis\<close> converts its arguments, calls the method of the same
  name of the Redis client and converts the reply. A reading method is a function of
  the reply it gets; a writing method returns the call it makes, or the exception it
  raises before making one.
\<close>

datatype store_call =
    Store_mset "(pyobj \<times> pyobj) list"
  | Store_hset pyobj pyobj pyobj
  | Store_hset_mapping pyobj "(pyobj \<times> pyobj) list"
  | Store_hmset pyobj "(pyobj \<times> pyobj) list"

text \<open>\<open>isinstance(mapping, dict)\<close> and the truth value of an object.\<close>

fun is_dict :: "pyobj \<Rightarrow> bool" where
  "is_dict (PyDict d) = True"
| "is_dict _ = False"


definition keys :: "(bytes \<Rightarrow> pyexc + pyobj) \<Rightarrow> bytes list option \<Rightarrow> pyexc + pyobj list" where
  "keys loads encoded =
    mapE (\<lambda>key. convert_get_type loads (Some key) False)
      (case encoded of None \<Rightarrow> [] | Some ks \<Rightarrow> ks)"

definition randomkey :: "(bytes \<Rightarrow> pyexc + pyobj) \<Rightarrow> bytes option \<Rightarrow> pyexc + pyobj" where
  "randomkey loads encoded = convert_get_type loads encoded False"

definition type :: "(bytes \<Rightarrow> pyexc + pyobj) \<Rightarrow> bytes option \<Rightarrow> pyexc + pyobj" where
  "type loads encoded = convert_get_type loads encoded False"

definition mset :: "(pyobj \<Rightarrow> pyexc + bytes) \<Rightarrow> pyobj \<Rightarrow> pyexc + store_call" where
  "mset dumps mapping =
    (if \<not> is_dict mapping then Inl ValueError
     else bindE (convert_set_mapping_dic dumps mapping) (\<lambda>m. Inr (Store_mset m)))"


definition hmset :: "(pyobj \<Rightarrow> pyexc + bytes) \<Rightarrow> pyobj \<Rightarrow> pyobj \<Rightarrow> pyexc + store_call" where
  "hmset dumps name mapping =
    (if \<not> is_dict mapping then Inl ValueError
     else bindE (convert_set_mapping_dic dumps mapping) (\<lambda>m. Inr (Store_hmset name m)))"

text \<open>
  Storing under a key of a dictionary: the value of a key that is present is
  replaced, a new key goes to the end.
\<close>

fun dict_setitem :: "('k \<times> 'v) list \<Rightarrow> 'k \<Rightarrow> 'v \<Rightarrow> ('k \<times> 'v) list" where
  "dict_setitem [] k v = [(k, v)]"
| "dict_setitem ((k', v') # d) k v =
    (if k' = k then (k', v) # d else (k', v') # dict_setitem d k v)"

definition dict_of_items :: "('k \<times> 'v) list \<Rightarrow> ('k \<times> 'v) list" where
  "dict_of_items kvs = foldl (\<lambda>d (k, v). dict_setitem d k v) [] kvs"

text \<open>
  \<open>hgetall\<close>: \<open>{k.decode("utf-8"): convert_get_type(v, pickle_first) for k, v in
  encoded.items()}\<close>; the key of an item is evaluated before its value.
\<close>

definition hgetall_items ::
  "(bytes \<Rightarrow> pyexc + pyobj) \<Rightarrow> (bytes \<times> bytes) list \<Rightarrow> bool \<Rightarrow> pyexc + (ustr \<times> pyobj) list" where
  "hgetall_items loads encoded pickle_first =
    mapE (\<lambda>(k, v).
            bindE (utf8_decode k)
              (\<lambda>name. bindE (convert_get_type loads (Some v) pickle_first)
                 (\<lambda>val. Inr (name, val))))
      encoded"

definition hgetall ::
  "(bytes \<Rightarrow> pyexc + pyobj) \<Rightarrow> (bytes \<times> bytes) list \<Rightarrow> bool \<Rightarrow> pyexc + (ustr \<times> pyobj) list" where
  "hgetall loads encoded pickle_first =
    bindE (hgetall_items loads encoded pickle_first) (\<lambda>kvs. Inr (dict_of_items kvs))"

section \<open>Writing a value and reading it back\<close>

text \<open>
  \<open>set(name, value)\<close> followed by \<open>get(name, pickle_first)\<close>: the client sends what
  \<open>convert_set_type\<close> returns, the store gives the same bytes back, and
  \<open>convert_get_type\<close> decodes them.
\<close>

definition roundtrip ::
  "(pyobj \<Rightarrow> pyexc + bytes) \<Rightarrow> (bytes \<Rightarrow> pyexc + pyobj) \<Rightarrow> pyobj \<Rightarrow> bool \<Rightarrow> pyexc + pyobj" where
  "roundtrip dumps loads v pickle_first =
    bindE (Encode dumps v) (\<lambda>b. convert_get_type loads (Some b) pickle_first)"

section \<open>The layout of the header, and example arrays\<close>

text \<open>
  The three dimension fields of the header as the specification states them: the
  dimensions of the array, the unused ones set to 0.
\<close>

definition header_dims :: "nat list \<Rightarrow> nat list" where
  "header_dims shp = take 3 (shp @ [0, 0])"

text \<open>Arrays of 32-bit integers (type number 5), for the concrete cases below.\<close>

definition int32 :: np_dtype where
  "int32 = \<lparr>num = 5, itemsize = 4, native = True\<rparr>"

definition arr_1x2 :: ndarray where
  "arr_1x2 = \<lparr>dtype = int32, shape = [1, 2], tobytes = [1, 0, 0, 0, 2, 0, 0, 0]\<rparr>"

definition arr_3x0 :: ndarray where
  "arr_3x0 = \<lparr>dtype = int32, shape = [3, 0], tobytes = []\<rparr>"

definition arr_2x3x0 :: ndarray where
  "arr_2x3x0 = \<lparr>dtype = int32, shape = [2, 3, 0], tobytes = []\<rparr>"

definition arr_swapped :: ndarray where
  "arr_swapped = \<lparr>dtype = \<lparr>num = 5, itemsize = 4, native = False\<rparr>, shape = [1],
                   tobytes = [0, 0, 0, 1]\<rparr>"

definition arr_0xbig :: ndarray where
  "arr_0xbig = \<lparr>dtype = int32, shape = [0, 4294967296], tobytes = []\<rparr>"

section \<open>UTF-8: decoding inverts encoding\<close>

lemma unat_byte_of: "n < 256 \<Longrightarrow> unat (byte_of n) = n"
  by (simp add: byte_of_def unat_of_nat)

lemma decode_1:
  "unat b0 < 128 \<Longrightarrow> utf8_decode (b0 # r) = consE (unat b0) (utf8_decode r)"
  by simp

lemma decode_2:
  assumes "unat b0 = 192 + h" "h < 32" "unat b1 = 128 + l" "l < 64" "128 \<le> h * 64 + l"
  shows "utf8_decode (b0 # b1 # r) = consE (h * 64 + l) (utf8_decode r)"
  using assms by (simp add: cont_byte_def cont_bits_def Let_def)

lemma decode_3:
  assumes "unat b0 = 224 + h" "h < 16" "unat b1 = 128 + m" "m < 64"
    "unat b2 = 128 + l" "l < 64" "2048 \<le> h * 4096 + m * 64 + l"
    "\<not> (55296 \<le> h * 4096 + m * 64 + l \<and> h * 4096 + m * 64 + l < 57344)"
  shows "utf8_decode (b0 # b1 # b2 # r) = consE (h * 4096 + m * 64 + l) (utf8_decode r)"
  using assms by (simp add: cont_byte_def cont_bits_def Let_def)

lemma decode_4:
  assumes "unat b0 = 240 + h" "h < 8" "unat b1 = 128 + m" "m < 64"
    "unat b2 = 128 + l" "l < 64" "unat b3 = 128 + k" "k < 64"
    "65536 \<le> h * 262144 + m * 4096 + l * 64 + k"
    "h * 262144 + m * 4096 + l * 64 + k < 1114112"
  shows "utf8_decode (b0 # b1 # b2 # b3 # r)
         = consE (h * 262144 + m * 4096 + l * 64 + k) (utf8_decode r)"
  using assms by (simp add: cont_byte_def cont_bits_def Let_def)

text \<open>A code point is the sum of its six-bit groups.\<close>

lemma join3: "q = r * 64 + m \<Longrightarrow> c = q * 64 + l \<Longrightarrow> r * 4096 + m * 64 + l = (c::nat)"
  by simp

lemma split3: "(c::nat) div 4096 * 4096 + c div 64 mod 64 * 64 + c mod 64 = c"
proof -
  have q: "c div 4096 = c div 64 div 64" by (simp add: div_mult2_eq)
  have a: "c div 64 = c div 64 div 64 * 64 + c div 64 mod 64" by simp
  have b: "c = c div 64 * 64 + c mod 64" by simp
  show ?thesis unfolding q by (rule join3 [OF a b])
qed

lemma join4: "q = r * 64 + m \<Longrightarrow> q * 4096 + x = c \<Longrightarrow> r * 262144 + m * 4096 + x = (c::nat)"
  by simp

lemma split4:
  "(c::nat) div 262144 * 262144 + c div 4096 mod 64 * 4096 + (c div 64 mod 64 * 64 + c mod 64) = c"
proof -
  have q: "c div 262144 = c div 4096 div 64" by (simp add: div_mult2_eq)
  have a: "c div 4096 = c div 4096 div 64 * 64 + c div 4096 mod 64" by simp
  have b: "c div 4096 * 4096 + (c div 64 mod 64 * 64 + c mod 64) = c"
    using split3 [of c] by (simp only: add.assoc)
  show ?thesis unfolding q by (rule join4 [OF a b])
qed

lemma decode_cp2:
  assumes "128 \<le> c" "c < 2048"
  shows "utf8_decode (byte_of (192 + c div 64) # byte_of (128 + c mod 64) # r)
         = consE c (utf8_decode r)"
proof -
  have d: "c div 64 < 32" using assms by simp
  have a: "unat (byte_of (192 + c div 64)) = 192 + c div 64"
    using d by (intro unat_byte_of) simp
  have b: "unat (byte_of (128 + c mod 64)) = 128 + c mod 64"
    by (intro unat_byte_of) simp
  have l: "c mod 64 < 64" by simp
  have e: "c div 64 * 64 + c mod 64 = c" by simp
  have g: "128 \<le> c div 64 * 64 + c mod 64" using assms by (simp only: e)
  have "utf8_decode (byte_of (192 + c div 64) # byte_of (128 + c mod 64) # r)
        = consE (c div 64 * 64 + c mod 64) (utf8_decode r)"
    by (rule decode_2 [OF a d b l g])
  then show ?thesis by (simp only: e)
qed

lemma decode_cp3:
  assumes "2048 \<le> c" "c < 65536" "\<not> (55296 \<le> c \<and> c < 57344)"
  shows "utf8_decode (byte_of (224 + c div 4096) # byte_of (128 + c div 64 mod 64)
                      # byte_of (128 + c mod 64) # r)
         = consE c (utf8_decode r)"
proof -
  have d: "c div 4096 < 16" using assms by simp
  have a: "unat (byte_of (224 + c div 4096)) = 224 + c div 4096"
    using d by (intro unat_byte_of) simp
  have b: "unat (byte_of (128 + c div 64 mod 64)) = 128 + c div 64 mod 64"
    by (intro unat_byte_of) simp
  have b2: "unat (byte_of (128 + c mod 64)) = 128 + c mod 64"
    by (intro unat_byte_of) simp
  have m: "c div 64 mod 64 < 64" and l: "c mod 64 < 64" by simp_all
  have e: "c div 4096 * 4096 + c div 64 mod 64 * 64 + c mod 64 = c"
    by (rule split3)
  have g1: "2048 \<le> c div 4096 * 4096 + c div 64 mod 64 * 64 + c mod 64"
    unfolding e by (rule assms(1))
  have g2: "\<not> (55296 \<le> c div 4096 * 4096 + c div 64 mod 64 * 64 + c mod 64
      \<and> c div 4096 * 4096 + c div 64 mod 64 * 64 + c mod 64 < 57344)"
    unfolding e by (rule assms(3))
  have "utf8_decode (byte_of (224 + c div 4096) # byte_of (128 + c div 64 mod 64)
                     # byte_of (128 + c mod 64) # r)
        = consE (c div 4096 * 4096 + c div 64 mod 64 * 64 + c mod 64) (utf8_decode r)"
    by (rule decode_3 [OF a d b m b2 l g1 g2])
  then show ?thesis by (simp only: e)
qed

lemma decode_cp4:
  assumes "65536 \<le> c" "c < 1114112"
  shows "utf8_decode (byte_of (240 + c div 262144) # byte_of (128 + c div 4096 mod 64)
                      # byte_of (128 + c div 64 mod 64) # byte_of (128 + c mod 64) # r)
         = consE c (utf8_decode r)"
proof -
  have d: "c div 262144 < 8" using assms by simp
  have a: "unat (byte_of (240 + c div 262144)) = 240 + c div 262144"
    using d by (intro unat_byte_of) simp
  have b: "unat (byte_of (128 + c div 4096 mod 64)) = 128 + c div 4096 mod 64"
    by (intro unat_byte_of) simp
  have b1: "unat (byte_of (128 + c div 64 mod 64)) = 128 + c div 64 mod 64"
    by (intro unat_byte_of) simp
  have b2: "unat (byte_of (128 + c mod 64)) = 128 + c mod 64"
    by (intro unat_byte_of) simp
  have m: "c div 4096 mod 64 < 64" and l: "c div 64 mod 64 < 64" and k: "c mod 64 < 64"
    by simp_all
  have e: "c div 262144 * 262144 + c div 4096 mod 64 * 4096 + c div 64 mod 64 * 64
           + c mod 64 = c"
    using split4 [of c] by (simp only: add.assoc)
  have g1: "65536 \<le> c div 262144 * 262144 + c div 4096 mod 64 * 4096
                   + c div 64 mod 64 * 64 + c mod 64"
    unfolding e by (rule assms(1))
  have g2: "c div 262144 * 262144 + c div 4096 mod 64 * 4096 + c div 64 mod 64 * 64
            + c mod 64 < 1114112"
    unfolding e by (rule assms(2))
  have "utf8_decode (byte_of (240 + c div 262144) # byte_of (128 + c div 4096 mod 64)
                     # byte_of (128 + c div 64 mod 64) # byte_of (128 + c mod 64) # r)
        = consE (c div 262144 * 262144 + c div 4096 mod 64 * 4096
                 + c div 64 mod 64 * 64 + c mod 64) (utf8_decode r)"
    by (rule decode_4 [OF a d b m b1 l b2 k g1 g2])
  then show ?thesis by (simp only: e)
qed

lemma utf8_decode_encode_cp:
  assumes "utf8_encode_cp c = Some bs"
  shows "utf8_decode (bs @ r) = consE c (utf8_decode r)"
proof -
  consider (one) "c < 128" | (two) "128 \<le> c" "c < 2048"
    | (three) "2048 \<le> c" "c < 65536" "\<not> (55296 \<le> c \<and> c < 57344)"
    | (four) "65536 \<le> c" "c < 1114112"
    | (bad) "(55296 \<le> c \<and> c < 57344) \<or> 1114112 \<le> c"
    by linarith
  then show ?thesis
  proof cases
    case one
    then have "bs = [byte_of c]" using assms by (simp add: utf8_encode_cp_def)
    moreover have "unat (byte_of c) = c" using one by (intro unat_byte_of) simp
    ultimately show ?thesis using one decode_1 [of "byte_of c" r] by simp
  next
    case two
    then have "bs = [byte_of (192 + c div 64), byte_of (128 + c mod 64)]"
      using assms by (simp add: utf8_encode_cp_def)
    then show ?thesis using decode_cp2 [OF two] by simp
  next
    case three
    then have "bs = [byte_of (224 + c div 4096), byte_of (128 + c div 64 mod 64),
                     byte_of (128 + c mod 64)]"
      using assms by (auto simp: utf8_encode_cp_def split: if_splits)
    then show ?thesis using decode_cp3 [OF three] by simp
  next
    case four
    then have "bs = [byte_of (240 + c div 262144), byte_of (128 + c div 4096 mod 64),
                     byte_of (128 + c div 64 mod 64), byte_of (128 + c mod 64)]"
      using assms by (simp add: utf8_encode_cp_def)
    then show ?thesis using decode_cp4 [OF four] by simp
  next
    case bad
    then have "utf8_encode_cp c = None" by (auto simp: utf8_encode_cp_def)
    then show ?thesis using assms by simp
  qed
qed

lemma utf8_decode_encode: "utf8_encode s = Inr b \<Longrightarrow> utf8_decode b = Inr s"
proof (induction s arbitrary: b)
  case Nil
  then show ?case by simp
next
  case (Cons c cs)
  from Cons.prems obtain bs r where
    c: "utf8_encode_cp c = Some bs" and r: "utf8_encode cs = Inr r" and b: "b = bs @ r"
    by (auto split: option.splits sum.splits)
  have "utf8_decode r = Inr cs" using Cons.IH [OF r] .
  then show ?case using utf8_decode_encode_cp [OF c, of r] b by (simp add: consE_def)
qed

section \<open>The branches of \<open>convert_get_type\<close>\<close>

lemma convert_get_type_None: "convert_get_type loads None pf = Inr PyNone"
  by (simp add: convert_get_type_def)

lemma convert_get_type_first_success:
  "loads b = Inr v \<Longrightarrow> convert_get_type loads (Some b) True = Inr v"
  by (simp add: convert_get_type_def)

lemma convert_get_type_text:
  "utf8_decode b = Inr s \<Longrightarrow> convert_get_type loads (Some b) False = Inr (PyStr s)"
  by (simp add: convert_get_type_def)

lemma convert_get_type_first_text:
  "loads b = Inl e \<Longrightarrow> is_PickleError e \<Longrightarrow> utf8_decode b = Inr s \<Longrightarrow>
   convert_get_type loads (Some b) True = Inr (PyStr s)"
  by (simp add: convert_get_type_def)

lemma convert_get_type_first_raw:
  "loads b = Inl e \<Longrightarrow> is_PickleError e \<Longrightarrow> utf8_decode b = Inl e' \<Longrightarrow>
   convert_get_type loads (Some b) True = Inr (PyBytes b)"
  by (simp add: convert_get_type_def)

lemma convert_get_type_fallback_success:
  "utf8_decode b = Inl e' \<Longrightarrow> loads b = Inr v \<Longrightarrow>
   convert_get_type loads (Some b) False = Inr v"
  by (simp add: convert_get_type_def)

lemma convert_get_type_fallback_raw:
  "utf8_decode b = Inl e' \<Longrightarrow> loads b = Inl e \<Longrightarrow> is_PickleError e \<Longrightarrow>
   convert_get_type loads (Some b) False = Inr (PyBytes b)"
  by (simp add: convert_get_type_def)

text \<open>An exception of the deserializer that is not a \<open>PickleError\<close> leaves the function.\<close>

lemma convert_get_type_escapes:
  "loads b = Inl e \<Longrightarrow> \<not> is_PickleError e \<Longrightarrow> pf \<or> utf8_decode b = Inl e' \<Longrightarrow>
   convert_get_type loads (Some b) pf = Inl e"
  by (auto simp: convert_get_type_def split: sum.splits)

text \<open>
  The function raises in exactly that case: the deserializer is reached, with the hint
  or after a failed UTF-8 decoding, and raises an exception that is no \<open>PickleError\<close>.
\<close>

lemma convert_get_type_raises_iff:
  "convert_get_type loads (Some b) pf = Inl e \<longleftrightarrow>
     loads b = Inl e \<and> \<not> is_PickleError e \<and> (pf \<or> (\<exists>e'. utf8_decode b = Inl e'))"
  by (auto simp: convert_get_type_def split: sum.splits)

text \<open>
  Where the deserializer fails with a \<open>PickleError\<close> only, the code follows the
  precedence of the specification.
\<close>

lemma convert_get_type_eq_Decode_spec:
  assumes "\<And>e. loads b = Inl e \<Longrightarrow> is_PickleError e"
  shows "convert_get_type loads (Some b) pf = Decode_spec loads (Some b) pf"
  using assms by (auto simp: convert_get_type_def Decode_spec_def split: sum.splits)

section \<open>Comprehensions and the pieces of a round trip\<close>

lemma mapE_Inr_iff: "mapE f xs = Inr ys \<longleftrightarrow> list_all2 (\<lambda>x y. f x = Inr y) xs ys"
proof (induction xs arbitrary: ys)
  case Nil
  then show ?case by auto
next
  case (Cons x xs)
  show ?case
  proof (cases ys)
    case Nil
    then show ?thesis by (simp add: bindE_def split: sum.splits)
  next
    case (Cons y ys')
    then show ?thesis using Cons.IH [of ys'] by (auto simp: bindE_def split: sum.splits)
  qed
qed

lemma mapE_Inl: "mapE f xs = Inl e \<Longrightarrow> \<exists>x \<in> set xs. f x = Inl e"
  by (induction xs) (auto simp: bindE_def split: sum.splits)

lemma mapE_raises: "x \<in> set xs \<Longrightarrow> f x = Inl e \<Longrightarrow> \<exists>e'. mapE f xs = Inl e'"
  by (induction xs) (auto simp: bindE_def split: sum.splits)

lemma consE_Inl: "consE c r = Inl e \<longleftrightarrow> r = Inl e"
  by (simp add: consE_def split: sum.splits)

lemma utf8_decode_error: "utf8_decode b = Inl e \<Longrightarrow> e = UnicodeDecodeError"
proof (induction "length b" arbitrary: b rule: less_induct)
  case less
  note IH = less.hyps and prem = less.prems
  show ?case
  proof (cases b)
    case Nil
    then show ?thesis using prem by simp
  next
    case b: (Cons b0 bs)
    consider (one) "unat b0 < 128" | (stray) "128 \<le> unat b0" "unat b0 < 192"
      | (two) "192 \<le> unat b0" "unat b0 < 224" | (three) "224 \<le> unat b0" "unat b0 < 240"
      | (four) "240 \<le> unat b0" "unat b0 < 248" | (high) "248 \<le> unat b0"
      by linarith
    then show ?thesis
    proof cases
      case one
      then have "utf8_decode bs = Inl e" using prem b by (simp add: consE_Inl)
      then show ?thesis using IH [of bs] b by simp
    next
      case stray
      then show ?thesis using prem b by simp
    next
      case two
      show ?thesis
      proof (cases bs)
        case Nil
        then show ?thesis using prem b two by simp
      next
        case (Cons b1 r)
        have "length r < length b" using b Cons by simp
        then have "utf8_decode r = Inl e \<Longrightarrow> e = UnicodeDecodeError" by (rule IH)
        then show ?thesis using prem b Cons two
          by (simp add: Let_def consE_Inl split: if_splits)
      qed
    next
      case three
      show ?thesis
      proof (cases bs)
        case Nil
        then show ?thesis using prem b three by simp
      next
        case c1: (Cons b1 r1)
        show ?thesis
        proof (cases r1)
          case Nil
          then show ?thesis using prem b c1 three by simp
        next
          case (Cons b2 r)
          have "length r < length b" using b c1 Cons by simp
          then have "utf8_decode r = Inl e \<Longrightarrow> e = UnicodeDecodeError" by (rule IH)
          then show ?thesis using prem b c1 Cons three
            by (simp add: Let_def consE_Inl split: if_splits)
        qed
      qed
    next
      case four
      show ?thesis
      proof (cases bs)
        case Nil
        then show ?thesis using prem b four by simp
      next
        case c1: (Cons b1 r1)
        show ?thesis
        proof (cases r1)
          case Nil
          then show ?thesis using prem b c1 four by simp
        next
          case c2: (Cons b2 r2)
          show ?thesis
          proof (cases r2)
            case Nil
            then show ?thesis using prem b c1 c2 four by simp
          next
            case (Cons b3 r)
            have "length r < length b" using b c1 c2 Cons by simp
            then have "utf8_decode r = Inl e \<Longrightarrow> e = UnicodeDecodeError" by (rule IH)
            then show ?thesis using prem b c1 c2 Cons four
              by (simp add: Let_def consE_Inl split: if_splits)
          qed
        qed
      qed
    next
      case high
      then show ?thesis using prem b by simp
    qed
  qed
qed

lemma Encode_str: "Encode dumps (PyStr s) = utf8_encode s"
  by (simp add: Encode_def convert_set_type_def bindE_def)

lemma Encode_other:
  "\<not> is_str v \<Longrightarrow> dumps v = Inr b \<Longrightarrow> Encode dumps v = Inr b"
  by (simp add: Encode_def convert_set_type_def bindE_def)

text \<open>The pickle fragment on the inputs used below.\<close>

lemma pickle_loads_hello: "pickle_loads [104, 101, 108, 108, 111] = Inl UnpicklingError"
  by (simp add: pickle_loads_def)

lemma utf8_encode_hello:
  "utf8_encode [104, 101, 108, 108, 111] = Inr [104, 101, 108, 108, 111]"
  by (simp add: utf8_encode_cp_def byte_of_def)

lemma pickle_dumps_42: "pickle_dumps (PyInt 42) = Inr [128, 4, 75, 42, 46]"
  by (simp add: pickle_dumps_def bindE_def frame_def byte_of_def)

lemma pickle_loads_42: "pickle_loads [128, 4, 75, 42, 46] = Inr (PyInt 42)"
  by (simp add: pickle_loads_def)

lemma utf8_decode_hello:
  "utf8_decode [104, 101, 108, 108, 111] = Inr [104, 101, 108, 108, 111]"
  by (rule utf8_decode_encode [OF utf8_encode_hello])

lemma utf8_decode_pickle_42: "utf8_decode [128, 4, 75, 42, 46] = Inl UnicodeDecodeError"
  by simp

lemma utf8_decode_255: "utf8_decode [255] = Inl UnicodeDecodeError"
  by simp

lemma pickle_loads_255: "pickle_loads [255] = Inl UnpicklingError"
  by (simp add: pickle_loads_def other_opcodes_def)

lemma convert_get_type_pickle_42:
  "convert_get_type pickle_loads (Some [128, 4, 75, 42, 46]) True = Inr (PyInt 42)"
  by (simp add: convert_get_type_def pickle_loads_42)

lemma convert_get_type_hello:
  "convert_get_type pickle_loads (Some [104, 101, 108, 108, 111]) True
   = Inr (PyStr [104, 101, 108, 108, 111])"
  using pickle_loads_hello utf8_decode_hello
  by (simp add: convert_get_type_first_text del: utf8_decode.simps)

lemma utf8_decode_string:
  "utf8_decode [115, 116, 114, 105, 110, 103] = Inr [115, 116, 114, 105, 110, 103]"
  by (simp add: consE_def)

section \<open>The pickle fragment: loading inverts dumping\<close>

lemma length_le_bytes: "length (le_bytes k n) = k"
  by (induction k arbitrary: n) auto

lemma le_nat_le_bytes: "le_nat (le_bytes k n) = n mod 256 ^ k"
proof (induction k arbitrary: n)
  case 0
  then show ?case by simp
next
  case (Suc k)
  have "le_nat (le_bytes (Suc k) n) = n mod 256 + 256 * (n div 256 mod 256 ^ k)"
    by (simp add: Suc.IH unat_byte_of)
  also have "\<dots> = n mod (256 * 256 ^ k)"
    by (simp add: mod_mult2_eq)
  finally show ?case by simp
qed

lemma take_le_bytes: "take k (le_bytes k n @ r) = le_bytes k n"
  by (simp add: length_le_bytes)

lemma drop_le_bytes: "drop k (le_bytes k n @ r) = r"
  by (simp add: length_le_bytes)

lemma unpickle_STOP: "unpickle (v # st) (46 # r) = Inr v"
  by simp

lemma unpickle_PROTO4: "unpickle st (128 # 4 # r) = unpickle st r"
  by simp

lemma unpickle_BININT1:
  "unpickle st (75 # le_bytes 1 n @ r) = unpickle (PyInt (int (n mod 256)) # st) r"
proof -
  have "unpickle st (75 # le_bytes 1 n @ r)
        = unpickle (PyInt (int (le_nat (take 1 (le_bytes 1 n @ r)))) # st)
            (drop 1 (le_bytes 1 n @ r))"
    by (simp add: length_le_bytes)
  then show ?thesis
    by (simp only: take_le_bytes drop_le_bytes le_nat_le_bytes power_one_right)
qed

lemma pow256: "(256::nat) ^ 2 = 65536" "(256::nat) ^ 4 = 4294967296"
  "(256::nat) ^ 8 = 18446744073709551616"
  by simp_all

lemma unpickle_BININT2:
  "unpickle st (77 # le_bytes 2 n @ r) = unpickle (PyInt (int (n mod 65536)) # st) r"
proof -
  have "unpickle st (77 # le_bytes 2 n @ r)
        = unpickle (PyInt (int (le_nat (take 2 (le_bytes 2 n @ r)))) # st)
            (drop 2 (le_bytes 2 n @ r))"
    by (simp add: length_le_bytes)
  then show ?thesis
    by (simp only: take_le_bytes drop_le_bytes le_nat_le_bytes pow256)
qed

lemma unpickle_BININT:
  "unpickle st (74 # le_bytes 4 n @ r)
   = unpickle (PyInt (signed32 (n mod 4294967296)) # st) r"
proof -
  have "unpickle st (74 # le_bytes 4 n @ r)
        = unpickle (PyInt (signed32 (le_nat (take 4 (le_bytes 4 n @ r)))) # st)
            (drop 4 (le_bytes 4 n @ r))"
    by (simp add: length_le_bytes)
  then show ?thesis
    by (simp only: take_le_bytes drop_le_bytes le_nat_le_bytes pow256)
qed

lemma unpickle_FRAME:
  assumes "n < 9223372036854775808" "n \<le> length r"
  shows "unpickle st (149 # le_bytes 8 n @ r) = unpickle st r"
proof -
  have m: "n mod 18446744073709551616 = n" using assms(1) by simp
  have t: "le_nat (take 8 (le_bytes 8 n @ r)) = n"
    by (simp only: take_le_bytes le_nat_le_bytes pow256 m)
  have d: "drop 8 (le_bytes 8 n @ r) = r" by (rule drop_le_bytes)
  have l: "\<not> length (le_bytes 8 n @ r) < 8" by (simp add: length_le_bytes)
  have "unpickle st (149 # le_bytes 8 n @ r)
        = (if length (le_bytes 8 n @ r) < 8 then Inl UnpicklingError
           else if 9223372036854775808 \<le> le_nat (take 8 (le_bytes 8 n @ r))
           then Inl OverflowError
           else if length (drop 8 (le_bytes 8 n @ r)) < le_nat (take 8 (le_bytes 8 n @ r))
           then Inl UnpicklingError
           else unpickle st (drop 8 (le_bytes 8 n @ r)))"
    by (simp add: length_le_bytes)
  also have "\<dots> = unpickle st r"
    unfolding t d using assms l by (simp del: le_bytes.simps unpickle.simps)
  finally show ?thesis .
qed

lemma dumps_of_save:
  "save v = Inr ops \<Longrightarrow> pickle_dumps v = Inr (128 # 4 # frame (ops @ [46]))"
  by (simp add: pickle_dumps_def bindE_def)

lemma frame_short: "length body < 4 \<Longrightarrow> frame body = body"
  by (simp add: frame_def)

lemma frame_long:
  "4 \<le> length body \<Longrightarrow> frame body = 149 # le_bytes 8 (length body) @ body"
  by (simp add: frame_def)

lemma loads_int1:
  "pickle_loads (128 # 4 # frame ((75 # le_bytes 1 n) @ [46])) = Inr (PyInt (int (n mod 256)))"
proof -
  have f: "frame ((75 # le_bytes 1 n) @ [46]) = 75 # le_bytes 1 n @ [46]"
    by (simp add: frame_short length_le_bytes del: le_bytes.simps)
  have "pickle_loads (128 # 4 # 75 # le_bytes 1 n @ [46])
        = unpickle [] (75 # le_bytes 1 n @ [46])"
    unfolding pickle_loads_def by (rule unpickle_PROTO4)
  also have "\<dots> = unpickle [PyInt (int (n mod 256))] [46]" by (rule unpickle_BININT1)
  also have "\<dots> = Inr (PyInt (int (n mod 256)))" by (rule unpickle_STOP)
  finally show ?thesis unfolding f .
qed

lemma loads_int2:
  "pickle_loads (128 # 4 # frame ((77 # le_bytes 2 n) @ [46])) = Inr (PyInt (int (n mod 65536)))"
proof -
  have l: "length (77 # le_bytes 2 n @ [46]) = 4" by (simp add: length_le_bytes del: le_bytes.simps)
  have f: "frame ((77 # le_bytes 2 n) @ [46])
           = 149 # le_bytes 8 (length (77 # le_bytes 2 n @ [46])) @ (77 # le_bytes 2 n @ [46])"
    using l by (simp add: frame_long del: le_bytes.simps)
  have "pickle_loads (128 # 4 # 149 # le_bytes 8 (length (77 # le_bytes 2 n @ [46]))
                        @ (77 # le_bytes 2 n @ [46]))
        = unpickle [] (149 # le_bytes 8 (length (77 # le_bytes 2 n @ [46]))
                        @ (77 # le_bytes 2 n @ [46]))"
    unfolding pickle_loads_def by (rule unpickle_PROTO4)
  also have "\<dots> = unpickle [] (77 # le_bytes 2 n @ [46])"
    by (rule unpickle_FRAME) (simp_all add: length_le_bytes del: le_bytes.simps)
  also have "\<dots> = unpickle [PyInt (int (n mod 65536))] [46]" by (rule unpickle_BININT2)
  also have "\<dots> = Inr (PyInt (int (n mod 65536)))" by (rule unpickle_STOP)
  finally show ?thesis unfolding f .
qed

lemma loads_int4:
  "pickle_loads (128 # 4 # frame ((74 # le_bytes 4 n) @ [46]))
   = Inr (PyInt (signed32 (n mod 4294967296)))"
proof -
  have l: "length (74 # le_bytes 4 n @ [46]) = 6" by (simp add: length_le_bytes del: le_bytes.simps)
  have f: "frame ((74 # le_bytes 4 n) @ [46])
           = 149 # le_bytes 8 (length (74 # le_bytes 4 n @ [46])) @ (74 # le_bytes 4 n @ [46])"
    using l by (simp add: frame_long del: le_bytes.simps)
  have "pickle_loads (128 # 4 # 149 # le_bytes 8 (length (74 # le_bytes 4 n @ [46]))
                        @ (74 # le_bytes 4 n @ [46]))
        = unpickle [] (149 # le_bytes 8 (length (74 # le_bytes 4 n @ [46]))
                        @ (74 # le_bytes 4 n @ [46]))"
    unfolding pickle_loads_def by (rule unpickle_PROTO4)
  also have "\<dots> = unpickle [] (74 # le_bytes 4 n @ [46])"
    by (rule unpickle_FRAME) (simp_all add: length_le_bytes del: le_bytes.simps)
  also have "\<dots> = unpickle [PyInt (signed32 (n mod 4294967296))] [46]"
    by (rule unpickle_BININT)
  also have "\<dots> = Inr (PyInt (signed32 (n mod 4294967296)))" by (rule unpickle_STOP)
  finally show ?thesis unfolding f .
qed

lemma signed32_of_int:
  assumes "- 2147483648 \<le> i" "i < 2147483648"
  shows "signed32 (nat (i mod 4294967296) mod 4294967296) = i"
proof (cases "0 \<le> i")
  case True
  then have "i mod 4294967296 = i" using assms by simp
  then show ?thesis using True assms by (simp add: signed32_def)
next
  case False
  then have "(i + 4294967296) mod 4294967296 = i + 4294967296"
    using assms by (intro mod_pos_pos_trivial) simp_all
  then have m: "i mod 4294967296 = i + 4294967296" by simp
  have n: "nat (i + 4294967296) mod 4294967296 = nat (i + 4294967296)"
    using False assms by simp
  show ?thesis unfolding m n using False assms by (simp add: signed32_def)
qed

lemma pickle_fragment_roundtrip:
  assumes "in_fragment v"
  shows "\<exists>b. pickle_dumps v = Inr b \<and> pickle_loads b = Inr v"
proof (cases v)
  case PyNone
  then show ?thesis by (simp add: pickle_dumps_def bindE_def frame_def pickle_loads_def)
next
  case (PyBool b)
  then show ?thesis
    by (cases b) (simp_all add: pickle_dumps_def bindE_def frame_def pickle_loads_def)
next
  case (PyInt i)
  then have r: "- 2147483648 \<le> i" "i < 2147483648" using assms by simp_all
  consider (b1) "0 \<le> i" "i < 256" | (b2) "256 \<le> i" "i < 65536"
    | (b4) "\<not> (0 \<le> i \<and> i < 65536)"
    by linarith
  then show ?thesis
  proof cases
    case b1
    have s: "save (PyInt i) = Inr (75 # le_bytes 1 (nat i))" using b1 by simp
    have "int (nat i mod 256) = i" using b1 by simp
    then show ?thesis using dumps_of_save [OF s] loads_int1 [of "nat i"] PyInt by simp
  next
    case b2
    have s: "save (PyInt i) = Inr (77 # le_bytes 2 (nat i))" using b2 by simp
    have "int (nat i mod 65536) = i" using b2 by simp
    then show ?thesis using dumps_of_save [OF s] loads_int2 [of "nat i"] PyInt by simp
  next
    case b4
    have s: "save (PyInt i) = Inr (74 # le_bytes 4 (nat (i mod 4294967296)))"
      using b4 r by auto
    have "signed32 (nat (i mod 4294967296) mod 4294967296) = i"
      using r by (rule signed32_of_int)
    then show ?thesis
      using dumps_of_save [OF s] loads_int4 [of "nat (i mod 4294967296)"] PyInt by simp
  qed
qed (use assms in simp_all)

lemma fragment_roundtrip_with_hint:
  assumes "in_fragment v"
  shows "roundtrip pickle_dumps pickle_loads v True = Inr v"
proof -
  obtain b where b: "pickle_dumps v = Inr b" "pickle_loads b = Inr v"
    using pickle_fragment_roundtrip [OF assms] by blast
  have n: "\<not> is_str v" using assms by (cases v) simp_all
  show ?thesis
    using n b by (simp add: roundtrip_def Encode_other bindE_def convert_get_type_first_success)
qed

section \<open>The bulk operations\<close>




section \<open>The items of \<open>hgetall\<close>\<close>

lemma hgetall_items_first_bad_name:
  assumes "utf8_decode k = Inl e"
    and "\<forall>(k', v') \<in> set pre. \<exists>val. convert_get_type loads (Some v') pf = Inr val"
  shows "hgetall_items loads (pre @ (k, v) # post) pf = Inl UnicodeDecodeError"
  using assms(2)
proof (induction pre)
  case Nil
  have "e = UnicodeDecodeError" using assms(1) by (rule utf8_decode_error)
  then show ?case using assms(1) by (simp add: hgetall_items_def bindE_def)
next
  case (Cons x pre)
  obtain k' v' where x: "x = (k', v')" by (cases x)
  obtain val where val: "convert_get_type loads (Some v') pf = Inr val"
    using Cons.prems x by auto
  have rest: "hgetall_items loads (pre @ (k, v) # post) pf = Inl UnicodeDecodeError"
    using Cons.IH Cons.prems by simp
  show ?case
  proof (cases "utf8_decode k'")
    case (Inl e')
    then have "e' = UnicodeDecodeError" by (rule utf8_decode_error)
    then show ?thesis using Inl x by (simp add: hgetall_items_def bindE_def)
  next
    case (Inr name)
    then show ?thesis using x val rest by (simp add: hgetall_items_def bindE_def)
  qed
qed

lemma hgetall_items_bad_name_raises:
  assumes "(k, v) \<in> set encoded" "utf8_decode k = Inl e"
  shows "\<exists>e'. hgetall_items loads encoded pf = Inl e'"
proof -
  have "(case (k, v) of (k, v) \<Rightarrow>
          bindE (utf8_decode k)
            (\<lambda>name. bindE (convert_get_type loads (Some v) pf) (\<lambda>val. Inr (name, val))))
        = Inl e"
    using assms(2) by (simp add: bindE_def)
  then show ?thesis
    unfolding hgetall_items_def using assms(1) by (rule mapE_raises [rotated])
qed

lemma hgetall_items_Inr:
  assumes "hgetall_items loads encoded pf = Inr kvs"
  shows "list_all2 (\<lambda>(k, v) (name, val).
           utf8_decode k = Inr name \<and> convert_get_type loads (Some v) pf = Inr val) encoded kvs"
proof -
  have "list_all2 (\<lambda>x y. (case x of (k, v) \<Rightarrow>
          bindE (utf8_decode k)
            (\<lambda>name. bindE (convert_get_type loads (Some v) pf) (\<lambda>val. Inr (name, val))))
          = Inr y) encoded kvs"
    using assms by (simp add: hgetall_items_def mapE_Inr_iff)
  then show ?thesis
    by (rule list_all2_mono) (auto simp: bindE_def split: sum.splits)
qed

lemma hgetall_items_returns:
  assumes "list_all2 (\<lambda>(k, v) (name, val).
             utf8_decode k = Inr name \<and> convert_get_type loads (Some v) pf = Inr val) encoded kvs"
  shows "hgetall_items loads encoded pf = Inr kvs"
proof -
  have "list_all2 (\<lambda>x y. (case x of (k, v) \<Rightarrow>
          bindE (utf8_decode k)
            (\<lambda>name. bindE (convert_get_type loads (Some v) pf) (\<lambda>val. Inr (name, val))))
          = Inr y) encoded kvs"
    using assms by (rule list_all2_mono) (auto simp: bindE_def)
  then show ?thesis by (simp add: hgetall_items_def mapE_Inr_iff)
qed

text \<open>
  An exception of the comprehension is the \<open>UnicodeDecodeError\<close> of a name, or an
  exception of the deserializer on a value that \<open>convert_get_type\<close> lets through.
\<close>

lemma hgetall_items_error:
  assumes "hgetall_items loads encoded pf = Inl e'"
  shows "e' = UnicodeDecodeError
         \<or> (\<exists>(k, v) \<in> set encoded. loads v = Inl e' \<and> \<not> is_PickleError e')"
proof -
  obtain k v where kv: "(k, v) \<in> set encoded"
    and f: "bindE (utf8_decode k)
              (\<lambda>name. bindE (convert_get_type loads (Some v) pf) (\<lambda>val. Inr (name, val)))
            = Inl e'"
    using mapE_Inl [OF assms [unfolded hgetall_items_def]] by auto
  show ?thesis
  proof (cases "utf8_decode k")
    case (Inl e)
    then have "e' = e" using f by (simp add: bindE_def)
    then show ?thesis using Inl utf8_decode_error by blast
  next
    case (Inr name)
    then have "convert_get_type loads (Some v) pf = Inl e'"
      using f by (simp add: bindE_def split: sum.splits)
    then have "loads v = Inl e' \<and> \<not> is_PickleError e'"
      by (simp add: convert_get_type_raises_iff)
    then show ?thesis using kv by blast
  qed
qed

text \<open>
  Building the dictionary from items with distinct names keeps them as they are, in
  their order.
\<close>

lemma dict_setitem_new: "k \<notin> fst ` set d \<Longrightarrow> dict_setitem d k v = d @ [(k, v)]"
  by (induction d) auto

lemma foldl_dict_setitem_distinct:
  "distinct (map fst (acc @ kvs)) \<Longrightarrow>
   foldl (\<lambda>d (k, v). dict_setitem d k v) acc kvs = acc @ kvs"
proof (induction kvs arbitrary: acc)
  case Nil
  then show ?case by simp
next
  case (Cons x kvs)
  obtain k v where x: "x = (k, v)" by (cases x)
  have new: "k \<notin> fst ` set acc" using Cons.prems x by auto
  have d: "distinct (map fst ((acc @ [(k, v)]) @ kvs))" using Cons.prems x by simp
  show ?case
    using Cons.IH [OF d] by (simp add: x dict_setitem_new [OF new])
qed

lemma dict_of_items_distinct: "distinct (map fst kvs) \<Longrightarrow> dict_of_items kvs = kvs"
  using foldl_dict_setitem_distinct [of "[]" kvs] by (simp add: dict_of_items_def)

section \<open>Packing and unpacking the header\<close>

lemma length_be32: "length (be32 n) = 4"
  by (simp add: be32_def)

lemma be_nat_4: "be_nat [a, b, c, d] = ((unat a * 256 + unat b) * 256 + unat c) * 256 + unat d"
  by (simp add: be_nat_def)

lemma join_be32:
  "q2 = q3 * 256 + r2 \<Longrightarrow> q1 = q2 * 256 + r1 \<Longrightarrow> n = q1 * 256 + r0 \<Longrightarrow>
   ((q3 * 256 + r2) * 256 + r1) * 256 + r0 = (n::nat)"
  by simp

lemma be_nat_be32:
  assumes "n < 4294967296"
  shows "be_nat (be32 n) = n"
proof -
  have hi: "n div 16777216 < 256" using assms by simp
  have u3: "unat (byte_of (n div 16777216 mod 256)) = n div 16777216"
    using hi by (simp add: unat_byte_of)
  have u2: "unat (byte_of (n div 65536 mod 256)) = n div 65536 mod 256"
    by (simp add: unat_byte_of)
  have u1: "unat (byte_of (n div 256 mod 256)) = n div 256 mod 256"
    by (simp add: unat_byte_of)
  have u0: "unat (byte_of (n mod 256)) = n mod 256"
    by (simp add: unat_byte_of)
  have q3: "n div 16777216 = n div 65536 div 256" by (simp add: div_mult2_eq)
  have q2: "n div 65536 = n div 256 div 256" by (simp add: div_mult2_eq)
  have a: "n div 65536 = n div 16777216 * 256 + n div 65536 mod 256"
    unfolding q3 by simp
  have b: "n div 256 = n div 65536 * 256 + n div 256 mod 256"
    unfolding q2 by simp
  have c: "n = n div 256 * 256 + n mod 256" by simp
  have "be_nat (be32 n)
        = ((n div 16777216 * 256 + n div 65536 mod 256) * 256 + n div 256 mod 256) * 256
          + n mod 256"
    unfolding be32_def be_nat_4 u3 u2 u1 u0 ..
  also have "\<dots> = n" by (rule join_be32 [OF a b c])
  finally show ?thesis .
qed

lemma struct_unpack_pack:
  assumes "a < 4294967296" "b < 4294967296" "c < 4294967296" "d < 4294967296"
  shows "struct_unpack_IIII (take 16 (be32 a @ be32 b @ be32 c @ be32 d @ rest)) = Inr (a, b, c, d)"
proof -
  have t: "take 16 (be32 a @ be32 b @ be32 c @ be32 d @ rest) = be32 a @ be32 b @ be32 c @ be32 d"
    by (simp add: length_be32)
  show ?thesis
    unfolding t using assms
    by (simp add: struct_unpack_IIII_def length_be32 be_nat_be32)
qed

lemma shape_cases:
  assumes "length xs = 1 \<or> length xs = 2 \<or> length xs = 3"
  obtains (one) n where "xs = [n]" | (two) n m where "xs = [n, m]"
    | (three) n m p where "xs = [n, m, p]"
proof (cases xs)
  case Nil
  then show ?thesis using assms by simp
next
  case c1: (Cons n r1)
  show ?thesis
  proof (cases r1)
    case Nil
    then show ?thesis using c1 one by simp
  next
    case c2: (Cons m r2)
    show ?thesis
    proof (cases r2)
      case Nil
      then show ?thesis using c1 c2 two by simp
    next
      case c3: (Cons p r3)
      show ?thesis
      proof (cases r3)
        case Nil
        then show ?thesis using c1 c2 c3 three by simp
      next
        case (Cons q r4)
        then show ?thesis using c1 c2 c3 assms by simp
      qed
    qed
  qed
qed

lemma serialize_np_layout:
  assumes "length (shape a) = 1 \<or> length (shape a) = 2 \<or> length (shape a) = 3"
    "num (dtype a) < 4294967296" "\<forall>d \<in> set (shape a). d < 4294967296"
  shows "serialize_np a
         = Inr (be32 (num (dtype a)) @ concat (map be32 (header_dims (shape a))) @ tobytes a)"
  using assms(1)
proof (cases rule: shape_cases)
  case one
  then show ?thesis using assms(2,3)
    by (simp add: serialize_np_def bindE_def struct_pack_IIII_def header_dims_def)
next
  case two
  then show ?thesis using assms(2,3)
    by (simp add: serialize_np_def bindE_def struct_pack_IIII_def header_dims_def)
next
  case three
  then show ?thesis using assms(2,3)
    by (simp add: serialize_np_def bindE_def struct_pack_IIII_def header_dims_def)
qed

lemma unserialize_np_of_header:
  assumes "dt < 4294967296" "d1 < 4294967296" "d2 < 4294967296" "d3 < 4294967296"
    and "typeDict dt = Some t" "itemsize t \<noteq> 0" "num t \<noteq> 17"
    and "length data mod itemsize t = 0"
  shows "unserialize_np typeDict (be32 dt @ be32 d1 @ be32 d2 @ be32 d3 @ data)
         = (if d3 \<noteq> 0
            then reshape \<lparr>dtype = t, shape = [length data div itemsize t], tobytes = data\<rparr>
                   [d1, d2, d3]
            else if d2 \<noteq> 0
            then reshape \<lparr>dtype = t, shape = [length data div itemsize t], tobytes = data\<rparr>
                   [d1, d2]
            else Inr \<lparr>dtype = t, shape = [length data div itemsize t], tobytes = data\<rparr>)"
proof -
  have u: "struct_unpack_IIII (take 16 (be32 dt @ be32 d1 @ be32 d2 @ be32 d3 @ data))
           = Inr (dt, d1, d2, d3)"
    using assms(1-4) by (rule struct_unpack_pack)
  have f: "frombuffer (be32 dt @ be32 d1 @ be32 d2 @ be32 d3 @ data) 16 t
           = Inr \<lparr>dtype = t, shape = [length data div itemsize t], tobytes = data\<rparr>"
    using assms(6-8) by (simp add: frombuffer_def length_be32)
  show ?thesis
    unfolding unserialize_np_def u by (simp add: bindE_def assms(5) f)
qed

lemma be32_small: "be32 0 = [0, 0, 0, 0]" "be32 1 = [0, 0, 0, 1]" "be32 2 = [0, 0, 0, 2]"
  "be32 3 = [0, 0, 0, 3]" "be32 5 = [0, 0, 0, 5]" "be32 (Suc 0) = [0, 0, 0, 1]"
  by (simp_all add: be32_def byte_of_def)

lemma np_typeDict_5: "np_typeDict 5 = Some int32"
  by (simp add: np_typeDict_def np_itemsizes_def int32_def)

section \<open>The claims\<close>

text \<open>
  C1. The claim: \<open>Decode\<close> attempts the deserialization first under the hint, the
  UTF-8 decoding after a failed attempt, the deserialization after a failed UTF-8
  decoding without the hint, and returns the raw bytes when every attempt fails. The
  code does not: on the empty byte string with \<open>pickle_first\<close>, \<open>pickle.loads\<close> raises
  \<open>EOFError\<close>, which is no \<open>PickleError\<close>; the specified precedence gives the empty
  string, and \<open>convert_get_type\<close> raises \<open>EOFError\<close>. Without the hint, on the truncated
  pickle \<open>80 04\<close>, which is not UTF-8, the specified precedence gives the raw bytes, and
  \<open>convert_get_type\<close> raises \<open>EOFError\<close> again.
\<close>

theorem convert_get_type_breaks_precedence:
  "pickle_loads [] = Inl EOFError
   \<and> utf8_decode [] = Inr []
   \<and> Decode_spec pickle_loads (Some []) True = Inr (PyStr [])
   \<and> convert_get_type pickle_loads (Some []) True = Inl EOFError
   \<and> pickle_loads [128, 4] = Inl EOFError
   \<and> utf8_decode [128, 4] = Inl UnicodeDecodeError
   \<and> Decode_spec pickle_loads (Some [128, 4]) False = Inr (PyBytes [128, 4])
   \<and> convert_get_type pickle_loads (Some [128, 4]) False = Inl EOFError"
  by (simp add: convert_get_type_def Decode_spec_def pickle_loads_def)

text \<open>
  C2, as stated, fails: the string \<open>"N."\<close> is sent as the bytes \<open>4E 2E\<close>, which are the
  pickle of \<open>None\<close>, and reading it back with \<open>pickle_first\<close> gives \<open>None\<close>. A string
  that holds a surrogate (here U+D800 alone) has no UTF-8 encoding, and the client
  raises \<open>UnicodeEncodeError\<close> when it is to send it.
\<close>

theorem string_roundtrip_counterexample:
  "roundtrip pickle_dumps pickle_loads (PyStr [78, 46]) True = Inr PyNone
   \<and> roundtrip pickle_dumps pickle_loads (PyStr [78, 46]) True \<noteq> Inr (PyStr [78, 46])
   \<and> roundtrip pickle_dumps pickle_loads (PyStr [55296]) False = Inl UnicodeEncodeError"
  by (simp add: roundtrip_def Encode_str utf8_encode_cp_def byte_of_def bindE_def
      convert_get_type_def pickle_loads_def)

text \<open>
  C2, amended. A string that can be encoded as UTF-8 (it holds no surrogate) reads
  back as itself without the hint, and with the hint whenever the deserializer rejects
  its bytes with a \<open>PickleError\<close>.
\<close>

theorem string_roundtrip:
  assumes "utf8_encode s = Inr b"
  shows "roundtrip dumps loads (PyStr s) False = Inr (PyStr s)
         \<and> ((\<exists>e. loads b = Inl e \<and> is_PickleError e) \<longrightarrow>
              roundtrip dumps loads (PyStr s) True = Inr (PyStr s))"
proof -
  have d: "utf8_decode b = Inr s" using assms by (rule utf8_decode_encode)
  have e: "Encode dumps (PyStr s) = Inr b" using assms by (simp add: Encode_str)
  show ?thesis
    using d
    by (auto simp: roundtrip_def e bindE_def convert_get_type_text
        convert_get_type_first_text)
qed

theorem string_roundtrip_witness:
  "utf8_encode [104, 101, 108, 108, 111] = Inr [104, 101, 108, 108, 111]
   \<and> pickle_loads [104, 101, 108, 108, 111] = Inl UnpicklingError
   \<and> is_PickleError UnpicklingError
   \<and> roundtrip pickle_dumps pickle_loads (PyStr [104, 101, 108, 108, 111]) False
       = Inr (PyStr [104, 101, 108, 108, 111])
   \<and> roundtrip pickle_dumps pickle_loads (PyStr [104, 101, 108, 108, 111]) True
       = Inr (PyStr [104, 101, 108, 108, 111])"
proof -
  have c: "is_PickleError UnpicklingError" by simp
  have p: "\<exists>e. pickle_loads [104, 101, 108, 108, 111] = Inl e \<and> is_PickleError e"
    using pickle_loads_hello c by blast
  show ?thesis
    using string_roundtrip [OF utf8_encode_hello, of pickle_dumps pickle_loads]
      p c utf8_encode_hello pickle_loads_hello
    by blast
qed

text \<open>
  C3. The claim: on bytes, \<open>Decode\<close> never raises; a failure of the deserializer is
  consumed by the fallback chain and a string, a deserialized object or the raw bytes
  is returned. The code does not: on the byte \<open>4E\<close> alone (the text \<open>"N"\<close>, the \<open>NONE\<close>
  opcode with no \<open>STOP\<close> after it) \<open>pickle.loads\<close> raises \<open>EOFError\<close>, which is no
  \<open>PickleError\<close>, and \<open>convert_get_type\<close> with \<open>pickle_first\<close> raises it, where the
  chain of the specification returns the string \<open>"N"\<close>. This is the defect of C1.
\<close>

theorem convert_get_type_raises:
  "pickle_loads [78] = Inl EOFError
   \<and> \<not> is_PickleError EOFError
   \<and> utf8_decode [78] = Inr [78]
   \<and> Decode_spec pickle_loads (Some [78]) True = Inr (PyStr [78])
   \<and> convert_get_type pickle_loads (Some [78]) True = Inl EOFError"
  by (simp add: convert_get_type_def Decode_spec_def pickle_loads_def consE_def)

text \<open>
  C4. A value that is no string, that the serializer accepts and that the
  deserializer recovers from the serialized bytes, reads back as itself with the hint.
\<close>

theorem pickled_value_roundtrip:
  assumes "\<not> is_str v" "dumps v = Inr b" "loads b = Inr v"
  shows "roundtrip dumps loads v True = Inr v"
  using assms
  by (simp add: roundtrip_def Encode_other bindE_def convert_get_type_first_success)

theorem pickled_value_roundtrip_witness:
  "\<not> is_str (PyInt 42)
   \<and> pickle_dumps (PyInt 42) = Inr [128, 4, 75, 42, 46]
   \<and> pickle_loads [128, 4, 75, 42, 46] = Inr (PyInt 42)
   \<and> roundtrip pickle_dumps pickle_loads (PyInt 42) True = Inr (PyInt 42)"
proof -
  have n: "\<not> is_str (PyInt 42)" by simp
  show ?thesis
    using pickled_value_roundtrip
        [of "PyInt 42" pickle_dumps "[128, 4, 75, 42, 46]" pickle_loads,
         OF n pickle_dumps_42 pickle_loads_42]
      n pickle_dumps_42 pickle_loads_42
    by blast
qed

text \<open>
  C5, as stated, fails: a key that is not valid UTF-8 is handed to the deserializer.
  The key \<open>80 04 4B 2A 2E\<close>, the pickle of 42, is listed by \<open>keys\<close> and returned by
  \<open>randomkey\<close> as the integer 42.
\<close>

theorem key_listing_counterexample:
  "utf8_decode [128, 4, 75, 42, 46] = Inl UnicodeDecodeError
   \<and> pickle_loads [128, 4, 75, 42, 46] = Inr (PyInt 42)
   \<and> keys pickle_loads (Some [[128, 4, 75, 42, 46]]) = Inr [PyInt 42]
   \<and> randomkey pickle_loads (Some [128, 4, 75, 42, 46]) = Inr (PyInt 42)"
  by (simp add: keys_def randomkey_def bindE_def convert_get_type_def pickle_loads_def)

text \<open>
  C5, amended. \<open>keys\<close>, \<open>randomkey\<close> and \<open>type\<close> decode with \<open>pickle_first=False\<close>, \<open>keys\<close>
  every key of the reply on its own and in the order of the reply: a byte sequence
  that is valid UTF-8 becomes its text whatever the deserializer would make of it; one
  that is not is deserialized, and returned as raw bytes when the deserializer fails
  with a \<open>PickleError\<close>. With no reply \<open>keys\<close> returns the empty list, \<open>randomkey\<close> and
  \<open>type\<close> return \<open>None\<close>.
\<close>

theorem key_listing_decode:
  "(list_all2
      (\<lambda>k y. (\<exists>s. utf8_decode k = Inr s \<and> y = PyStr s)
             \<or> (\<exists>e. utf8_decode k = Inl e) \<and> loads k = Inr y
             \<or> (\<exists>e. utf8_decode k = Inl e) \<and> (\<exists>e'. loads k = Inl e' \<and> is_PickleError e')
                 \<and> y = PyBytes k)
      ks ys \<longrightarrow>
    keys loads (Some ks) = Inr ys)
   \<and> keys loads None = Inr []
   \<and> (utf8_decode b1 = Inr s \<longrightarrow>
      randomkey loads (Some b1) = Inr (PyStr s) \<and> type loads (Some b1) = Inr (PyStr s))
   \<and> (utf8_decode b2 = Inl e2 \<and> loads b2 = Inr v \<longrightarrow>
      randomkey loads (Some b2) = Inr v \<and> type loads (Some b2) = Inr v)
   \<and> (utf8_decode b3 = Inl e3 \<and> loads b3 = Inl e \<and> is_PickleError e \<longrightarrow>
      randomkey loads (Some b3) = Inr (PyBytes b3) \<and> type loads (Some b3) = Inr (PyBytes b3))
   \<and> randomkey loads None = Inr PyNone \<and> type loads None = Inr PyNone"
proof (intro conjI impI)
  assume a: "list_all2
      (\<lambda>k y. (\<exists>s. utf8_decode k = Inr s \<and> y = PyStr s)
             \<or> (\<exists>e. utf8_decode k = Inl e) \<and> loads k = Inr y
             \<or> (\<exists>e. utf8_decode k = Inl e) \<and> (\<exists>e'. loads k = Inl e' \<and> is_PickleError e')
                 \<and> y = PyBytes k)
      ks ys"
  have "list_all2 (\<lambda>k y. convert_get_type loads (Some k) False = Inr y) ks ys"
    using a
  proof (rule list_all2_mono)
    fix k y
    assume "(\<exists>s. utf8_decode k = Inr s \<and> y = PyStr s)
             \<or> (\<exists>e. utf8_decode k = Inl e) \<and> loads k = Inr y
             \<or> (\<exists>e. utf8_decode k = Inl e) \<and> (\<exists>e'. loads k = Inl e' \<and> is_PickleError e')
                 \<and> y = PyBytes k"
    then show "convert_get_type loads (Some k) False = Inr y"
      by (auto simp: convert_get_type_def)
  qed
  then show "keys loads (Some ks) = Inr ys"
    by (simp add: keys_def mapE_Inr_iff)
next
  show "keys loads None = Inr []" by (simp add: keys_def)
next
  assume "utf8_decode b1 = Inr s"
  then show "randomkey loads (Some b1) = Inr (PyStr s)"
    and "type loads (Some b1) = Inr (PyStr s)"
    by (simp_all add: randomkey_def type_def convert_get_type_text)
next
  assume "utf8_decode b2 = Inl e2 \<and> loads b2 = Inr v"
  then have c: "convert_get_type loads (Some b2) False = Inr v"
    by (simp add: convert_get_type_fallback_success)
  show "randomkey loads (Some b2) = Inr v" by (simp add: randomkey_def c)
  show "type loads (Some b2) = Inr v" by (simp add: type_def c)
next
  assume "utf8_decode b3 = Inl e3 \<and> loads b3 = Inl e \<and> is_PickleError e"
  then have c: "convert_get_type loads (Some b3) False = Inr (PyBytes b3)"
    by (simp add: convert_get_type_fallback_raw)
  show "randomkey loads (Some b3) = Inr (PyBytes b3)" by (simp add: randomkey_def c)
  show "type loads (Some b3) = Inr (PyBytes b3)" by (simp add: type_def c)
next
  show "randomkey loads None = Inr PyNone" by (simp add: randomkey_def convert_get_type_None)
  show "type loads None = Inr PyNone" by (simp add: type_def convert_get_type_None)
qed

theorem key_listing_decode_witness:
  "keys pickle_loads (Some [[104, 101, 108, 108, 111], [255], [128, 4, 75, 42, 46]])
     = Inr [PyStr [104, 101, 108, 108, 111], PyBytes [255], PyInt 42]
   \<and> keys pickle_loads None = Inr []
   \<and> randomkey pickle_loads (Some [104, 101, 108, 108, 111]) = Inr (PyStr [104, 101, 108, 108, 111])
   \<and> type pickle_loads (Some [115, 116, 114, 105, 110, 103])
       = Inr (PyStr [115, 116, 114, 105, 110, 103])
   \<and> randomkey pickle_loads (Some [128, 4, 75, 42, 46]) = Inr (PyInt 42)
   \<and> randomkey pickle_loads (Some [255]) = Inr (PyBytes [255])"
proof -
  have p: "is_PickleError UnpicklingError" by simp
  have l: "list_all2
      (\<lambda>k y. (\<exists>s. utf8_decode k = Inr s \<and> y = PyStr s)
             \<or> (\<exists>e. utf8_decode k = Inl e) \<and> pickle_loads k = Inr y
             \<or> (\<exists>e. utf8_decode k = Inl e)
                 \<and> (\<exists>e'. pickle_loads k = Inl e' \<and> is_PickleError e') \<and> y = PyBytes k)
      [[104, 101, 108, 108, 111], [255], [128, 4, 75, 42, 46]]
      [PyStr [104, 101, 108, 108, 111], PyBytes [255], PyInt 42]"
    using utf8_decode_hello utf8_decode_255 pickle_loads_255 utf8_decode_pickle_42
      pickle_loads_42 p
    by (simp del: utf8_decode.simps)
  note t1 = key_listing_decode
    [where loads = pickle_loads
       and ks = "[[104, 101, 108, 108, 111], [255], [128, 4, 75, 42, 46]]"
       and ys = "[PyStr [104, 101, 108, 108, 111], PyBytes [255], PyInt 42]"
       and ?b1.0 = "[104, 101, 108, 108, 111]" and s = "[104, 101, 108, 108, 111]"
       and ?b2.0 = "[128, 4, 75, 42, 46]" and ?e2.0 = UnicodeDecodeError and v = "PyInt 42"
       and ?b3.0 = "[255]" and ?e3.0 = UnicodeDecodeError and e = UnpicklingError]
  note t2 = key_listing_decode
    [where loads = pickle_loads
       and ?b1.0 = "[115, 116, 114, 105, 110, 103]" and s = "[115, 116, 114, 105, 110, 103]"]
  show ?thesis
    using t1 t2 l p utf8_decode_hello utf8_decode_string utf8_decode_pickle_42 pickle_loads_42
      utf8_decode_255 pickle_loads_255
    by blast
qed

text \<open>
  C6, as stated, fails. A dimension of 0 in the last place is read back as unused:
  the shape \<open>(3, 0)\<close> comes back as \<open>(0,)\<close>, and \<open>(2, 3, 0)\<close> makes \<open>unserialize_np\<close>
  raise \<open>ValueError\<close>. An array in the other byte order comes back in the native one,
  and a dimension of \<open>2^32\<close> does not fit the header.
\<close>

theorem numpy_roundtrip_counterexample:
  "wf_array arr_3x0
   \<and> serialize_np arr_3x0 = Inr [0, 0, 0, 5, 0, 0, 0, 3, 0, 0, 0, 0, 0, 0, 0, 0]
   \<and> unserialize_np np_typeDict [0, 0, 0, 5, 0, 0, 0, 3, 0, 0, 0, 0, 0, 0, 0, 0]
       = Inr \<lparr>dtype = int32, shape = [0], tobytes = []\<rparr>
   \<and> shape arr_3x0 \<noteq> [0]
   \<and> wf_array arr_2x3x0
   \<and> serialize_np arr_2x3x0 = Inr [0, 0, 0, 5, 0, 0, 0, 2, 0, 0, 0, 3, 0, 0, 0, 0]
   \<and> unserialize_np np_typeDict [0, 0, 0, 5, 0, 0, 0, 2, 0, 0, 0, 3, 0, 0, 0, 0]
       = Inl ValueError
   \<and> wf_array arr_swapped
   \<and> serialize_np arr_swapped = Inr [0, 0, 0, 5, 0, 0, 0, 1, 0, 0, 0, 0, 0, 0, 0, 0, 0, 0, 0, 1]
   \<and> unserialize_np np_typeDict [0, 0, 0, 5, 0, 0, 0, 1, 0, 0, 0, 0, 0, 0, 0, 0, 0, 0, 0, 1]
       = Inr \<lparr>dtype = int32, shape = [1], tobytes = [0, 0, 0, 1]\<rparr>
   \<and> dtype arr_swapped \<noteq> int32
   \<and> wf_array arr_0xbig
   \<and> serialize_np arr_0xbig = Inl StructError"
proof (intro conjI)
  show "wf_array arr_3x0" by (simp add: wf_array_def arr_3x0_def)
  show "serialize_np arr_3x0 = Inr [0, 0, 0, 5, 0, 0, 0, 3, 0, 0, 0, 0, 0, 0, 0, 0]"
    by (simp add: serialize_np_def arr_3x0_def int32_def bindE_def struct_pack_IIII_def
        be32_small)
  show "unserialize_np np_typeDict [0, 0, 0, 5, 0, 0, 0, 3, 0, 0, 0, 0, 0, 0, 0, 0]
       = Inr \<lparr>dtype = int32, shape = [0], tobytes = []\<rparr>"
    by (simp add: unserialize_np_def struct_unpack_IIII_def be_nat_def bindE_def
        np_typeDict_5 frombuffer_def int32_def)
  show "shape arr_3x0 \<noteq> [0]" by (simp add: arr_3x0_def)
  show "wf_array arr_2x3x0" by (simp add: wf_array_def arr_2x3x0_def)
  show "serialize_np arr_2x3x0 = Inr [0, 0, 0, 5, 0, 0, 0, 2, 0, 0, 0, 3, 0, 0, 0, 0]"
    by (simp add: serialize_np_def arr_2x3x0_def int32_def bindE_def struct_pack_IIII_def
        be32_small)
  show "unserialize_np np_typeDict [0, 0, 0, 5, 0, 0, 0, 2, 0, 0, 0, 3, 0, 0, 0, 0]
       = Inl ValueError"
    by (simp add: unserialize_np_def struct_unpack_IIII_def be_nat_def bindE_def
        np_typeDict_5 frombuffer_def int32_def reshape_def)
  show "wf_array arr_swapped" by (simp add: wf_array_def arr_swapped_def)
  show "serialize_np arr_swapped
        = Inr [0, 0, 0, 5, 0, 0, 0, 1, 0, 0, 0, 0, 0, 0, 0, 0, 0, 0, 0, 1]"
    by (simp add: serialize_np_def arr_swapped_def bindE_def struct_pack_IIII_def be32_small)
  show "unserialize_np np_typeDict [0, 0, 0, 5, 0, 0, 0, 1, 0, 0, 0, 0, 0, 0, 0, 0, 0, 0, 0, 1]
       = Inr \<lparr>dtype = int32, shape = [1], tobytes = [0, 0, 0, 1]\<rparr>"
    by (simp add: unserialize_np_def struct_unpack_IIII_def be_nat_def bindE_def
        np_typeDict_5 frombuffer_def int32_def)
  show "dtype arr_swapped \<noteq> int32" by (simp add: arr_swapped_def int32_def)
  show "wf_array arr_0xbig" by (simp add: wf_array_def arr_0xbig_def)
  show "serialize_np arr_0xbig = Inl StructError"
    by (simp add: serialize_np_def arr_0xbig_def int32_def bindE_def struct_pack_IIII_def)
qed

text \<open>
  C6, amended. For an array whose element type is the one the table gives for its
  type number, of shape \<open>(n,)\<close>, \<open>(n, m)\<close> with \<open>m > 0\<close> or \<open>(n, m, p)\<close> with \<open>p > 0\<close>,
  every dimension below \<open>2^32\<close>: \<open>serialize_np\<close> returns the 16 bytes of the four
  big-endian fields (type number, dimensions, the unused ones 0) followed by the bytes
  of the elements, and \<open>unserialize_np\<close> gives the array back.
\<close>

theorem numpy_roundtrip:
  assumes wf: "wf_array a"
    and td: "typeDict (num (dtype a)) = Some (dtype a)"
    and isz: "itemsize (dtype a) \<noteq> 0" and notobj: "num (dtype a) \<noteq> 17"
    and nb: "num (dtype a) < 4294967296"
    and shp: "(\<exists>n. shape a = [n]) \<or> (\<exists>n m. shape a = [n, m] \<and> m \<noteq> 0)
              \<or> (\<exists>n m p. shape a = [n, m, p] \<and> p \<noteq> 0)"
    and db: "\<forall>d \<in> set (shape a). d < 4294967296"
  shows "serialize_np a
           = Inr (be32 (num (dtype a)) @ concat (map be32 (header_dims (shape a))) @ tobytes a)
         \<and> length (be32 (num (dtype a)) @ concat (map be32 (header_dims (shape a)))) = 16
         \<and> (\<exists>b. serialize_np a = Inr b \<and> unserialize_np typeDict b = Inr a)"
proof -
  have len: "length (shape a) = 1 \<or> length (shape a) = 2 \<or> length (shape a) = 3"
    using shp by auto
  have lay: "serialize_np a
      = Inr (be32 (num (dtype a)) @ concat (map be32 (header_dims (shape a))) @ tobytes a)"
    using len nb db by (rule serialize_np_layout)
  have sz: "length (tobytes a) = itemsize (dtype a) * prod_list (shape a)"
    using wf by (simp add: wf_array_def)
  have m0: "length (tobytes a) mod itemsize (dtype a) = 0" by (simp add: sz)
  have dv: "length (tobytes a) div itemsize (dtype a) = prod_list (shape a)"
    using isz by (simp add: sz)
  have eq: "\<lparr>dtype = dtype a, shape = shape a, tobytes = tobytes a\<rparr> = a" by simp
  have un: "unserialize_np typeDict
      (be32 (num (dtype a)) @ concat (map be32 (header_dims (shape a))) @ tobytes a) = Inr a"
    using shp
  proof (elim disjE exE conjE)
    fix n assume s: "shape a = [n]"
    have n: "n < 4294967296" using db s by simp
    have z: "(0::nat) < 4294967296" by simp
    have "unserialize_np typeDict (be32 (num (dtype a)) @ be32 n @ be32 0 @ be32 0 @ tobytes a)
          = Inr \<lparr>dtype = dtype a, shape = [length (tobytes a) div itemsize (dtype a)],
                  tobytes = tobytes a\<rparr>"
      using unserialize_np_of_header [where typeDict = typeDict, OF nb n z z td isz notobj m0] by simp
    also have "\<dots> = Inr a" using eq by (simp add: dv s)
    finally show ?thesis by (simp add: s header_dims_def)
  next
    fix n m assume s: "shape a = [n, m]" and m: "m \<noteq> 0"
    have n: "n < 4294967296" and mb: "m < 4294967296" using db s by simp_all
    have z: "(0::nat) < 4294967296" by simp
    have "unserialize_np typeDict (be32 (num (dtype a)) @ be32 n @ be32 m @ be32 0 @ tobytes a)
          = reshape \<lparr>dtype = dtype a, shape = [length (tobytes a) div itemsize (dtype a)],
                     tobytes = tobytes a\<rparr> [n, m]"
      using unserialize_np_of_header [where typeDict = typeDict, OF nb n mb z td isz notobj m0] m by simp
    also have "\<dots> = Inr a" using eq by (simp add: reshape_def dv s)
    finally show ?thesis by (simp add: s header_dims_def)
  next
    fix n m p assume s: "shape a = [n, m, p]" and p: "p \<noteq> 0"
    have n: "n < 4294967296" and mb: "m < 4294967296" and pb: "p < 4294967296"
      using db s by simp_all
    have "unserialize_np typeDict (be32 (num (dtype a)) @ be32 n @ be32 m @ be32 p @ tobytes a)
          = reshape \<lparr>dtype = dtype a, shape = [length (tobytes a) div itemsize (dtype a)],
                     tobytes = tobytes a\<rparr> [n, m, p]"
      using unserialize_np_of_header [where typeDict = typeDict, OF nb n mb pb td isz notobj m0] p by simp
    also have "\<dots> = Inr a" using eq by (simp add: reshape_def dv s)
    finally show ?thesis by (simp add: s header_dims_def)
  qed
  have l16: "length (be32 (num (dtype a)) @ concat (map be32 (header_dims (shape a)))) = 16"
    using len by (cases rule: shape_cases) (simp_all add: header_dims_def length_be32)
  show ?thesis using lay un l16 by blast
qed

theorem numpy_roundtrip_witness:
  "wf_array arr_1x2
   \<and> np_typeDict (num (dtype arr_1x2)) = Some (dtype arr_1x2)
   \<and> shape arr_1x2 = [1, 2]
   \<and> serialize_np arr_1x2
       = Inr [0, 0, 0, 5, 0, 0, 0, 1, 0, 0, 0, 2, 0, 0, 0, 0, 1, 0, 0, 0, 2, 0, 0, 0]
   \<and> (\<exists>b. serialize_np arr_1x2 = Inr b \<and> unserialize_np np_typeDict b = Inr arr_1x2)"
proof -
  have wf: "wf_array arr_1x2" by (simp add: wf_array_def arr_1x2_def int32_def)
  have td: "np_typeDict (num (dtype arr_1x2)) = Some (dtype arr_1x2)"
    by (simp add: arr_1x2_def np_typeDict_5) (simp add: int32_def np_typeDict_5)
  have isz: "itemsize (dtype arr_1x2) \<noteq> 0" and notobj: "num (dtype arr_1x2) \<noteq> 17"
    and nb: "num (dtype arr_1x2) < 4294967296"
    by (simp_all add: arr_1x2_def int32_def)
  have s: "shape arr_1x2 = [1, 2]" by (simp add: arr_1x2_def)
  have shp: "(\<exists>n. shape arr_1x2 = [n]) \<or> (\<exists>n m. shape arr_1x2 = [n, m] \<and> m \<noteq> 0)
              \<or> (\<exists>n m p. shape arr_1x2 = [n, m, p] \<and> p \<noteq> 0)"
    by (simp add: s)
  have db: "\<forall>d \<in> set (shape arr_1x2). d < 4294967296" by (simp add: s)
  note t = numpy_roundtrip [where typeDict = np_typeDict, OF wf td isz notobj nb shp db]
  have bytes: "be32 (num (dtype arr_1x2)) @ concat (map be32 (header_dims (shape arr_1x2)))
               @ tobytes arr_1x2
               = [0, 0, 0, 5, 0, 0, 0, 1, 0, 0, 0, 2, 0, 0, 0, 0, 1, 0, 0, 0, 2, 0, 0, 0]"
    by (simp add: arr_1x2_def int32_def header_dims_def be32_small)
  show ?thesis using t wf td s bytes by metis
qed

text \<open>
  C7. \<open>serialize_np\<close> raises \<open>ValueError\<close> for an array of more than three dimensions,
  and returns no bytes.
\<close>

theorem serialize_np_more_than_3_dims:
  "3 < length (shape np_array) \<Longrightarrow> serialize_np np_array = Inl ValueError"
  by (auto simp: serialize_np_def bindE_def split: list.splits)

theorem serialize_np_more_than_3_dims_witness:
  "3 < length (shape \<lparr>dtype = \<lparr>num = 2, itemsize = 1, native = True\<rparr>,
                      shape = [1, 2, 1, 1], tobytes = [7, 9]\<rparr>)
   \<and> serialize_np \<lparr>dtype = \<lparr>num = 2, itemsize = 1, native = True\<rparr>,
                    shape = [1, 2, 1, 1], tobytes = [7, 9]\<rparr>
       = Inl ValueError"
  using serialize_np_more_than_3_dims
    [of "\<lparr>dtype = \<lparr>num = 2, itemsize = 1, native = True\<rparr>,
         shape = [1, 2, 1, 1], tobytes = [7, 9]\<rparr>"]
  by simp




text \<open>
  C9. \<open>mset\<close> and \<open>hmset\<close> raise \<open>ValueError\<close> for an argument that is no dictionary,
  whatever the serializer would do: no value is encoded and no call reaches the store.
\<close>

theorem bulk_set_rejects_non_dict:
  "\<not> is_dict mapping \<Longrightarrow>
   mset dumps mapping = Inl ValueError \<and> hmset dumps name mapping = Inl ValueError"
  by (simp add: mset_def hmset_def)

theorem bulk_set_rejects_non_dict_witness:
  "\<not> is_dict (PyList [PyInt 1, PyInt 2])
   \<and> mset pickle_dumps (PyList [PyInt 1, PyInt 2]) = Inl ValueError
   \<and> hmset pickle_dumps (PyStr [104]) (PyList [PyInt 1, PyInt 2]) = Inl ValueError"
  using bulk_set_rejects_non_dict [of "PyList [PyInt 1, PyInt 2]" pickle_dumps "PyStr [104]"]
  by simp

text \<open>
  C10. \<open>hgetall\<close> decodes every field name with the strict UTF-8 decoder and every
  value with \<open>convert_get_type\<close> under the caller's hint: where every name and every
  value decodes, it returns the dictionary of the decoded names and values, in the
  order of the reply, and whatever it returns is made that way. A field name that is
  not valid UTF-8 makes it raise: \<open>UnicodeDecodeError\<close>, when the values of the fields
  before it have been decoded without an exception. A name is never deserialized or
  returned as bytes. The only other exception is one of the deserializer, outside
  \<open>PickleError\<close>, on a value.
\<close>

theorem hgetall_names_strict:
  "(list_all2 (\<lambda>(k, v) (name, val).
        utf8_decode k = Inr name \<and> convert_get_type loads (Some v) pf = Inr val) encoded kvs
      \<longrightarrow> hgetall loads encoded pf = Inr (dict_of_items kvs)
          \<and> (distinct (map fst kvs) \<longrightarrow> hgetall loads encoded pf = Inr kvs))
   \<and> (utf8_decode k = Inl e
      \<and> (\<forall>(k', v') \<in> set pre. \<exists>val. convert_get_type loads (Some v') pf = Inr val) \<longrightarrow>
      hgetall loads (pre @ (k, v) # post) pf = Inl UnicodeDecodeError)
   \<and> ((k, v) \<in> set encoded \<and> utf8_decode k = Inl e \<longrightarrow>
      (\<exists>e'. hgetall loads encoded pf = Inl e'))
   \<and> (hgetall loads encoded pf = Inr d \<longrightarrow>
      (\<exists>kvs. d = dict_of_items kvs
         \<and> list_all2 (\<lambda>(k, v) (name, val).
              utf8_decode k = Inr name \<and> convert_get_type loads (Some v) pf = Inr val)
             encoded kvs))
   \<and> (hgetall loads encoded pf = Inl e' \<longrightarrow>
      e' = UnicodeDecodeError
      \<or> (\<exists>(k, v) \<in> set encoded. loads v = Inl e' \<and> \<not> is_PickleError e'))"
proof (intro conjI impI)
  assume a: "list_all2 (\<lambda>(k, v) (name, val).
        utf8_decode k = Inr name \<and> convert_get_type loads (Some v) pf = Inr val) encoded kvs"
  have i: "hgetall_items loads encoded pf = Inr kvs" using a by (rule hgetall_items_returns)
  show r: "hgetall loads encoded pf = Inr (dict_of_items kvs)"
    by (simp add: hgetall_def bindE_def i)
  assume "distinct (map fst kvs)"
  then show "hgetall loads encoded pf = Inr kvs" using r by (simp add: dict_of_items_distinct)
next
  assume "utf8_decode k = Inl e
      \<and> (\<forall>(k', v') \<in> set pre. \<exists>val. convert_get_type loads (Some v') pf = Inr val)"
  then have "hgetall_items loads (pre @ (k, v) # post) pf = Inl UnicodeDecodeError"
    by (intro hgetall_items_first_bad_name [of k e]) simp_all
  then show "hgetall loads (pre @ (k, v) # post) pf = Inl UnicodeDecodeError"
    by (simp add: hgetall_def bindE_def)
next
  assume "(k, v) \<in> set encoded \<and> utf8_decode k = Inl e"
  then obtain e' where "hgetall_items loads encoded pf = Inl e'"
    using hgetall_items_bad_name_raises [of k v encoded e loads pf] by blast
  then show "\<exists>e'. hgetall loads encoded pf = Inl e'"
    by (simp add: hgetall_def bindE_def)
next
  assume a: "hgetall loads encoded pf = Inr d"
  then obtain kvs where kvs: "hgetall_items loads encoded pf = Inr kvs"
    and d: "d = dict_of_items kvs"
    by (auto simp: hgetall_def bindE_def split: sum.splits)
  show "\<exists>kvs. d = dict_of_items kvs
         \<and> list_all2 (\<lambda>(k, v) (name, val).
              utf8_decode k = Inr name \<and> convert_get_type loads (Some v) pf = Inr val)
             encoded kvs"
    using d hgetall_items_Inr [OF kvs] by blast
next
  assume "hgetall loads encoded pf = Inl e'"
  then have "hgetall_items loads encoded pf = Inl e'"
    by (auto simp: hgetall_def bindE_def split: sum.splits)
  then show "e' = UnicodeDecodeError
      \<or> (\<exists>(k, v) \<in> set encoded. loads v = Inl e' \<and> \<not> is_PickleError e')"
    by (rule hgetall_items_error)
qed

theorem hgetall_names_strict_witness:
  "hgetall pickle_loads
     [([97], [128, 4, 75, 42, 46]), ([98], [104, 101, 108, 108, 111])] True
     = Inr [([97], PyInt 42), ([98], PyStr [104, 101, 108, 108, 111])]
   \<and> hgetall pickle_loads [([97], [78, 46])] True = Inr [([97], PyNone)]
   \<and> hgetall pickle_loads [([97], [78, 46])] False = Inr [([97], PyStr [78, 46])]
   \<and> hgetall pickle_loads ([([97], [128, 4, 75, 42, 46])] @ ([255], [120]) # []) True
     = Inl UnicodeDecodeError
   \<and> (\<exists>e'. hgetall pickle_loads [([97], [128, 4, 75, 42, 46]), ([255], [120])] True = Inl e')
   \<and> (\<exists>kvs. [([97], PyInt 42), ([98], PyStr [104, 101, 108, 108, 111])] = dict_of_items kvs
         \<and> list_all2 (\<lambda>(k, v) (name, val).
              utf8_decode k = Inr name \<and> convert_get_type pickle_loads (Some v) True = Inr val)
             [([97], [128, 4, 75, 42, 46]), ([98], [104, 101, 108, 108, 111])] kvs)"
proof -
  have g: "list_all2 (\<lambda>(k, v) (name, val).
        utf8_decode k = Inr name \<and> convert_get_type pickle_loads (Some v) True = Inr val)
      [([97], [128, 4, 75, 42, 46]), ([98], [104, 101, 108, 108, 111])]
      [([97], PyInt 42), ([98], PyStr [104, 101, 108, 108, 111])]"
    by (simp add: convert_get_type_pickle_42 convert_get_type_hello consE_def)
  have dk: "distinct (map fst [([97::nat], PyInt 42), ([98], PyStr [104, 101, 108, 108, 111])])"
    by simp
  have gT: "list_all2 (\<lambda>(k, v) (name, val).
        utf8_decode k = Inr name \<and> convert_get_type pickle_loads (Some v) True = Inr val)
      [([97], [78, 46])] [([97], PyNone)]"
    by (simp add: convert_get_type_def pickle_loads_def consE_def)
  have gF: "list_all2 (\<lambda>(k, v) (name, val).
        utf8_decode k = Inr name \<and> convert_get_type pickle_loads (Some v) False = Inr val)
      [([97], [78, 46])] [([97], PyStr [78, 46])]"
    by (simp add: convert_get_type_def consE_def)
  have dT: "distinct (map fst [([97::nat], PyNone)])" by simp
  have dF: "distinct (map fst [([97::nat], PyStr [78, 46])])" by simp
  have h1: "utf8_decode [255] = Inl UnicodeDecodeError" by (rule utf8_decode_255)
  have h2: "\<forall>(k', v') \<in> set [([97], [128, 4, 75, 42, 46])].
              \<exists>val. convert_get_type pickle_loads (Some v') True = Inr val"
    using convert_get_type_pickle_42 by simp
  have h3: "([255], [120]) \<in> set [([97], [128, 4, 75, 42, 46]), ([255], [120])]" by simp
  note t0 = hgetall_names_strict
    [where loads = pickle_loads and pf = True
       and encoded = "[([97], [128, 4, 75, 42, 46]), ([98], [104, 101, 108, 108, 111])]"
       and kvs = "[([97], PyInt 42), ([98], PyStr [104, 101, 108, 108, 111])]"
       and d = "[([97], PyInt 42), ([98], PyStr [104, 101, 108, 108, 111])]"]
  note t1 = hgetall_names_strict
    [where k = "[255]" and e = UnicodeDecodeError and pre = "[([97], [128, 4, 75, 42, 46])]"
       and loads = pickle_loads and pf = True and v = "[120]" and post = "[]"
       and encoded = "[([97], [128, 4, 75, 42, 46]), ([255], [120])]"]
  note tT = hgetall_names_strict
    [where loads = pickle_loads and pf = True and encoded = "[([97], [78, 46])]"
       and kvs = "[([97], PyNone)]"]
  note tF = hgetall_names_strict
    [where loads = pickle_loads and pf = False and encoded = "[([97], [78, 46])]"
       and kvs = "[([97], PyStr [78, 46])]"]
  have r: "hgetall pickle_loads
     [([97], [128, 4, 75, 42, 46]), ([98], [104, 101, 108, 108, 111])] True
     = Inr [([97], PyInt 42), ([98], PyStr [104, 101, 108, 108, 111])]"
    using t0 g dk by blast
  have rT: "hgetall pickle_loads [([97], [78, 46])] True = Inr [([97], PyNone)]"
    using tT gT dT by blast
  have rF: "hgetall pickle_loads [([97], [78, 46])] False = Inr [([97], PyStr [78, 46])]"
    using tF gF dF by blast
  have a: "hgetall pickle_loads ([([97], [128, 4, 75, 42, 46])] @ ([255], [120]) # []) True
     = Inl UnicodeDecodeError"
    using t1 h1 h2 by blast
  have b: "\<exists>e'. hgetall pickle_loads [([97], [128, 4, 75, 42, 46]), ([255], [120])] True = Inl e'"
    using t1 h1 h3 by blast
  have c: "\<exists>kvs. [([97], PyInt 42), ([98], PyStr [104, 101, 108, 108, 111])] = dict_of_items kvs
         \<and> list_all2 (\<lambda>(k, v) (name, val).
              utf8_decode k = Inr name \<and> convert_get_type pickle_loads (Some v) True = Inr val)
             [([97], [128, 4, 75, 42, 46]), ([98], [104, 101, 108, 108, 111])] kvs"
    using t0 r by blast
  show ?thesis using r rT rF a b c by blast
qed

end
